theory Spec2Isabelle
  imports Main "HOL-Library.Char_ord" "HOL-Library.List_Lexorder"
    "HOL-Library.Product_Lexorder" "HOL-Library.AList" "HOL-Library.Multiset"
    "HOL-Library.Code_Target_Nat"
begin

section \<open>Python byte strings\<close>

text \<open>
  The program is Python 2: \<open>str\<close> is a byte string, modelled as \<open>string\<close> (a list of
  8-bit characters). Strings compare byte-wise and lexicographically, which is the
  order of \<open>HOL-Library.List_Lexorder\<close> over \<open>HOL-Library.Char_ord\<close>; tuples compare
  lexicographically (\<open>HOL-Library.Product_Lexorder\<close>). A \<open>dict\<close> is an association
  list with distinct keys, written with \<open>AList.update\<close>. The program iterates a dict
  after sorting its keys everywhere but in \<open>tuple(digests.keys())\<close>, on the dict that
  \<open>_digest\<close> returns; that dict is listed in the order in which CPython 2.7 iterates it.
\<close>

type_synonym dict = "(string \<times> string) list"

definition NL :: char where
  "NL = CHR 0x0A"

definition isspace :: "char \<Rightarrow> bool" where
  "isspace c \<longleftrightarrow> c = CHR '' '' \<or> c = CHR 0x09 \<or> c = CHR 0x0A \<or> c = CHR 0x0B
     \<or> c = CHR 0x0C \<or> c = CHR 0x0D"

text \<open>\<open>str.lower\<close> and \<open>str.upper\<close> change the ASCII letters only.\<close>

fun index_of :: "char \<Rightarrow> string \<Rightarrow> nat option" where
  "index_of c [] = None"
| "index_of c (x # xs) = (if c = x then Some 0 else map_option Suc (index_of c xs))"

definition ascii_uppercase :: string where
  "ascii_uppercase = ''ABCDEFGHIJKLMNOPQRSTUVWXYZ''"

definition ascii_lowercase :: string where
  "ascii_lowercase = ''abcdefghijklmnopqrstuvwxyz''"

definition lower_char :: "char \<Rightarrow> char" where
  "lower_char c = (case index_of c ascii_uppercase of None \<Rightarrow> c | Some i \<Rightarrow> ascii_lowercase ! i)"

definition upper_char :: "char \<Rightarrow> char" where
  "upper_char c = (case index_of c ascii_lowercase of None \<Rightarrow> c | Some i \<Rightarrow> ascii_uppercase ! i)"

definition lower :: "string \<Rightarrow> string" where
  "lower s = map lower_char s"

definition upper :: "string \<Rightarrow> string" where
  "upper s = map upper_char s"

definition rstrip :: "string \<Rightarrow> string" where
  "rstrip s = rev (dropWhile isspace (rev s))"

text \<open>\<open>sep.join(xs)\<close>.\<close>

fun join :: "string \<Rightarrow> string list \<Rightarrow> string" where
  "join sep [] = []"
| "join sep [x] = x"
| "join sep (x # y # ys) = x @ sep @ join sep (y # ys)"

text \<open>\<open>s[-n:]\<close> and \<open>s[:-n]\<close> for \<open>n > 0\<close>: on a string shorter than \<open>n\<close> the first is
  the whole string and the second is empty, as truncated subtraction gives.\<close>

definition last_n :: "nat \<Rightarrow> string \<Rightarrow> string" where
  "last_n n s = drop (length s - n) s"

definition but_last_n :: "nat \<Rightarrow> string \<Rightarrow> string" where
  "but_last_n n s = take (length s - n) s"

text \<open>\<open>"%d" % n\<close> for a non-negative \<open>n\<close>.\<close>

definition digit_char :: "nat \<Rightarrow> char" where
  "digit_char d = ''0123456789'' ! d"

function str_nat :: "nat \<Rightarrow> string" where
  "str_nat n = (if n < 10 then [digit_char n] else str_nat (n div 10) @ [digit_char (n mod 10)])"
  by pat_completeness auto
termination
  by (relation "measure id") auto

declare str_nat.simps [simp del]

text \<open>\<open>StringIO(buf).readlines()\<close>: the buffer cut after every newline; each line
  keeps its newline, a last line without one is kept when it is not empty.\<close>

fun splitlines :: "string \<Rightarrow> string \<Rightarrow> string list" where
  "splitlines acc [] = (if acc = [] then [] else [acc])"
| "splitlines acc (c # cs) =
     (if c = NL then (acc @ [NL]) # splitlines [] cs else splitlines (acc @ [c]) cs)"

definition readlines :: "string \<Rightarrow> string list" where
  "readlines buf = splitlines [] buf"

text \<open>\<open>re.split('\s*', s)\<close> of Python 2: the pattern can match the empty string, and
  Python 2 never splits on an empty match, so the string is cut at every maximal run
  of whitespace. A run at either end leaves an empty first or last piece.\<close>

fun re_split_ws :: "string \<Rightarrow> string list" where
  "re_split_ws [] = [[]]"
| "re_split_ws (c # cs) =
     (if isspace c then (if cs \<noteq> [] \<and> isspace (hd cs) then re_split_ws cs else [] # re_split_ws cs)
      else (case re_split_ws cs of [] \<Rightarrow> [[c]] | t # ts \<Rightarrow> (c # t) # ts))"

section \<open>Library functions: base64 and hashlib\<close>

text \<open>
  \<open>base64.b64encode\<close> is the standard encoding with padding. \<open>base64.b64decode\<close> is
  \<open>binascii.a2b_base64\<close>, a lenient decoder: it skips every character outside the
  alphabet, stops at a pad sequence, and raises \<open>TypeError\<close> when bits are left over.
\<close>

definition b64_alphabet :: string where
  "b64_alphabet = ''ABCDEFGHIJKLMNOPQRSTUVWXYZabcdefghijklmnopqrstuvwxyz0123456789+/''"

definition b64_char :: "nat \<Rightarrow> char" where
  "b64_char i = b64_alphabet ! i"

definition PAD :: char where
  "PAD = CHR ''=''"

text \<open>\<open>table_a2b_base64\<close>: the alphabet position; the pad character counts as valid,
  with value 0; every other character is invalid.\<close>

definition table_a2b :: "char \<Rightarrow> nat option" where
  "table_a2b c = (if c = PAD then Some 0 else index_of c b64_alphabet)"

fun b64encode :: "string \<Rightarrow> string" where
  "b64encode [] = []"
| "b64encode [a] = (let x = (of_char a :: nat) in
     [b64_char (x div 4), b64_char ((x mod 4) * 16), PAD, PAD])"
| "b64encode [a, b] = (let x = (of_char a :: nat); y = (of_char b :: nat) in
     [b64_char (x div 4), b64_char ((x mod 4) * 16 + y div 16), b64_char ((y mod 16) * 4), PAD])"
| "b64encode (a # b # c # rest) =
     (let x = (of_char a :: nat); y = (of_char b :: nat); z = (of_char c :: nat) in
      [b64_char (x div 4), b64_char ((x mod 4) * 16 + y div 16),
       b64_char ((y mod 16) * 4 + z div 64), b64_char (z mod 64)]) @ b64encode rest"

text \<open>\<open>binascii_find_valid(s, slen, num)\<close>: the \<open>(num+1)\<close>-th valid character.\<close>

fun find_valid :: "string \<Rightarrow> nat \<Rightarrow> char option" where
  "find_valid [] num = None"
| "find_valid (c # cs) num =
     (if (of_char c :: nat) \<le> 127 \<and> table_a2b c \<noteq> None
      then (if num = 0 then Some c else find_valid cs (num - 1))
      else find_valid cs num)"

text \<open>The decoding loop, on the state \<open>quad_pos\<close>, \<open>leftchar\<close>, \<open>leftbits\<close> and the bytes
  written so far; it returns the left-over bit count and the output.\<close>

fun a2b_loop :: "nat \<Rightarrow> nat \<Rightarrow> nat \<Rightarrow> string \<Rightarrow> string \<Rightarrow> nat \<times> string" where
  "a2b_loop quad_pos leftchar leftbits out [] = (leftbits, out)"
| "a2b_loop quad_pos leftchar leftbits out (c # cs) =
     (if (of_char c :: nat) > 127 \<or> c = CHR 0x0D \<or> c = CHR 0x0A \<or> c = CHR '' ''
      then a2b_loop quad_pos leftchar leftbits out cs
      else if c = PAD then
        (if quad_pos < 2 \<or> (quad_pos = 2 \<and> find_valid (c # cs) 1 \<noteq> Some PAD)
         then a2b_loop quad_pos leftchar leftbits out cs
         else (0, out))
      else (case table_a2b c of
          None \<Rightarrow> a2b_loop quad_pos leftchar leftbits out cs
        | Some v \<Rightarrow>
            (let quad_pos = (quad_pos + 1) mod 4;
                 leftchar = leftchar * 64 + v;
                 leftbits = leftbits + 6
             in if leftbits \<ge> 8
                then a2b_loop quad_pos (leftchar mod 2 ^ (leftbits - 8)) (leftbits - 8)
                       (out @ [char_of (leftchar div 2 ^ (leftbits - 8))]) cs
                else a2b_loop quad_pos leftchar leftbits out cs)))"

text \<open>The exceptions the program raises or lets through, with their arguments;
  \<open>IOError_errno\<close> is an \<open>IOError\<close> built from an error number, its message and a file
  name, as the opening of a missing file raises it.\<close>

datatype error =
    ParsingError string
  | KeyError string
  | TypeError string
  | IOError string
  | IOError_errno nat string string
  | BadZipfile string

definition b64decode :: "string \<Rightarrow> error + string" where
  "b64decode s = (case a2b_loop 0 0 0 [] s of
      (leftbits, out) \<Rightarrow> if leftbits \<noteq> 0 then Inl (TypeError ''Incorrect padding'') else Inr out)"

text \<open>\<open>_digest\<close>: the MD5 and SHA-1 digests of a buffer. The two hash functions of
  \<open>hashlib\<close> are parameters of the model; nothing is assumed about them. The dict
  \<open>{'md5': ..., 'sha1': ...}\<close> is listed as CPython 2.7 iterates it: the hash of \<open>sha1\<close>
  falls in slot 3 of the table and that of \<open>md5\<close> in slot 7, so \<open>keys()\<close> is
  \<open>['sha1', 'md5']\<close>.\<close>

definition digest :: "(string \<Rightarrow> string) \<Rightarrow> (string \<Rightarrow> string) \<Rightarrow> string \<Rightarrow> dict" where
  "digest md5 sha1 data = [(''sha1'', sha1 data), (''md5'', md5 data)]"

section \<open>The regular expressions\<close>

text \<open>
  \<open>headers_re\<close> is matched at the start of the line, ignoring case. Its first group is
  one of the alternatives below, tried in the order the pattern backtracks through
  them (the optional \<open>-Manifest\<close> is greedy, so it is tried before its absence);
  an alternative is kept only if \<open>\s*:\s*(.*)\<close> matches what follows it. The second
  group is the rest of the line up to a newline.
\<close>

fun match_ci :: "string \<Rightarrow> string \<Rightarrow> string option" where
  "match_ci [] s = Some s"
| "match_ci (p # ps) [] = None"
| "match_ci (p # ps) (c # cs) =
     (if lower_char c = lower_char p then match_ci ps cs else None)"

definition sep_value :: "string \<Rightarrow> string option" where
  "sep_value r = (case dropWhile isspace r of
       [] \<Rightarrow> None
     | c # r' \<Rightarrow> if c = CHR '':'' then Some (takeWhile (\<lambda>c. c \<noteq> NL) (dropWhile isspace r'))
                else None)"

fun try_headers :: "string list \<Rightarrow> string \<Rightarrow> (string \<times> string) option" where
  "try_headers [] line = None"
| "try_headers (h # hs) line =
     (case match_ci h line of
        None \<Rightarrow> try_headers hs line
      | Some r \<Rightarrow> (case sep_value r of
            None \<Rightarrow> try_headers hs line
          | Some v \<Rightarrow> Some (take (length h) line, v)))"

definition header_alternatives :: "string list" where
  "header_alternatives =
     [''Manifest-Version'', ''Signature-Version'', ''Name'', ''Digest-Algorithms'',
      ''MD5-Digest-Manifest'', ''MD5-Digest'', ''SHA1-Digest-Manifest'', ''SHA1-Digest'']"

definition headers_re_match :: "string \<Rightarrow> (string \<times> string) option" where
  "headers_re_match line = try_headers header_alternatives line"

text \<open>\<open>continuation_re\<close>: a leading space, then the rest of the line up to a newline.\<close>

definition continuation_re_match :: "string \<Rightarrow> string option" where
  "continuation_re_match line = (case line of
       [] \<Rightarrow> None
     | c # cs \<Rightarrow> if c = CHR '' '' then Some (takeWhile (\<lambda>c. c \<noteq> NL) cs) else None)"

text \<open>\<open>directory_re\<close>: a slash or backslash at the end of the string, where \<open>$\<close> also
  matches just before a final newline.\<close>

definition is_sep :: "char \<Rightarrow> bool" where
  "is_sep c \<longleftrightarrow> c = CHR ''/'' \<or> c = CHR 0x5C"

definition directory_re_search :: "string \<Rightarrow> bool" where
  "directory_re_search s \<longleftrightarrow>
     (s \<noteq> [] \<and> is_sep (last s)) \<or>
     (s \<noteq> [] \<and> last s = NL \<and> butlast s \<noteq> [] \<and> is_sep (last (butlast s)))"

section \<open>The sort key of archive entries\<close>

text \<open>\<open>os.path.split\<close> (POSIX): the path is cut after its last slash; trailing slashes
  are stripped from the head unless the head is made of slashes only.\<close>

definition os_path_split :: "string \<Rightarrow> string \<times> string" where
  "os_path_split p =
     (let tail = rev (takeWhile (\<lambda>c. c \<noteq> CHR ''/'') (rev p));
          head = take (length p - length tail) p
      in (if head \<noteq> [] \<and> head \<noteq> replicate (length head) (CHR ''/'')
          then rev (dropWhile (\<lambda>c. c = CHR ''/'') (rev head)) else head, tail))"

text \<open>A \<open>ZipInfo\<close> object: the entry's file name, and the address of the object, which is
  what Python 2 compares two \<open>ZipInfo\<close> objects by (the class defines no comparison).\<close>

record ZipInfo =
  filename :: string
  addr :: nat

definition prio :: "string \<Rightarrow> nat" where
  "prio nm =
     (if nm = ''install.rdf'' then 1
      else if nm \<in> set [''chrome.manifest'', ''icon.png'', ''icon64.png''] then 2
      else if nm \<in> set [''MPL'', ''GPL'', ''LGPL'', ''COPYING'', ''LICENSE'', ''license.txt''] then 5
      else 4)"

definition file_key :: "ZipInfo \<Rightarrow> string" where
  "file_key zinfo =
     (let nm = filename zinfo; parts = os_path_split (lower nm)
      in str_nat (prio nm) @ ''-'' @ fst parts @ ''-'' @ snd parts)"

section \<open>Sections\<close>

record Section =
  name :: string
  algos :: "string list"
  digests :: dict

text \<open>The loop of \<open>Section.__str__\<close> that wraps the \<open>Name\<close> line.\<close>

function wrap_name :: "string \<Rightarrow> string" where
  "wrap_name nm =
     (if nm = [] then []
      else take 72 nm @ (if drop 72 nm \<noteq> [] then [NL, CHR '' ''] else []) @ wrap_name (drop 72 nm))"
  by pat_completeness auto
termination
  by (relation "measure length") auto

declare wrap_name.simps [simp del]

definition Section_str :: "Section \<Rightarrow> string" where
  "Section_str self =
     (let order = sort (map fst (digests self));
          algos_s = concat (map (\<lambda>algo. '' '' @ upper algo) order)
      in wrap_name (''Name: '' @ name self) @ [NL]
         @ ''Digest-Algorithms:'' @ algos_s @ [NL]
         @ concat (map (\<lambda>algo. upper algo @ ''-Digest: ''
               @ b64encode (case map_of (digests self) algo of Some d \<Rightarrow> d | None \<Rightarrow> [])
               @ [NL]) order))"

section \<open>Manifests and signatures\<close>

text \<open>A \<open>Manifest\<close> is a list of sections with optional attributes; \<open>digest_manifests\<close>
  is \<open>None\<close> when the attribute was never set. A \<open>Signature\<close> is a \<open>Manifest\<close> with the
  flag \<open>omit_individual_sections\<close>; for it an unset \<open>digest_manifests\<close> reads as the
  empty dict of the class.\<close>

record Manifest =
  sections :: "Section list"
  digest_manifests :: "dict option"

record Signature = Manifest +
  omit_individual_sections :: bool

definition body :: "'a Manifest_scheme \<Rightarrow> string" where
  "body self = join [NL] (map Section_str (sections self))"

definition Manifest_header :: string where
  "Manifest_header = ''Manifest-Version: 1.0''"

definition Manifest_str :: "Manifest \<Rightarrow> string" where
  "Manifest_str self = join [NL] [Manifest_header, [], body self]"

definition digest_manifest :: "dict \<Rightarrow> string list" where
  "digest_manifest dm = map (\<lambda>i. upper (fst i) @ ''-Digest-Manifest: '' @ b64encode (snd i)) (sort dm)"

definition Signature_header :: "Signature \<Rightarrow> string" where
  "Signature_header self =
     join [NL] (''Signature-Version: 1.0''
        # digest_manifest (case digest_manifests self of None \<Rightarrow> [] | Some dm \<Rightarrow> dm))"

definition Signature_str :: "Signature \<Rightarrow> string" where
  "Signature_str self =
     (if omit_individual_sections self then Signature_header self @ [NL]
      else join [NL] [Signature_header self, [], body self])"

section \<open>Parsing\<close>

text \<open>
  The dict \<open>item\<close> of \<open>Manifest.parse\<close> only ever holds the keys \<open>name\<close>, \<open>algos\<close> and
  \<open>digests\<close>; each is a field that is \<open>None\<close> while the key is absent.
\<close>

record item =
  i_name :: "string option"
  i_algos :: "string list option"
  i_digests :: "dict option"

definition empty_item :: item where
  "empty_item = \<lparr>i_name = None, i_algos = None, i_digests = None\<rparr>"

text \<open>\<open>if item:\<close> holds when the dict has a key.\<close>

definition item_nonempty :: "item \<Rightarrow> bool" where
  "item_nonempty it \<longleftrightarrow> i_name it \<noteq> None \<or> i_algos it \<noteq> None \<or> i_digests it \<noteq> None"

text \<open>\<open>Section(item.pop('name'), **item)\<close>: \<open>KeyError\<close> when there is no name; the
  defaults of \<open>Section.__init__\<close> stand for the keys that are absent.\<close>

definition Section_of_item :: "item \<Rightarrow> error + Section" where
  "Section_of_item it = (case i_name it of
       None \<Rightarrow> Inl (KeyError ''name'')
     | Some n \<Rightarrow> Inr \<lparr>name = n,
         algos = (case i_algos it of None \<Rightarrow> [''md5'', ''sha1''] | Some a \<Rightarrow> a),
         digests = (case i_digests it of None \<Rightarrow> [] | Some d \<Rightarrow> d)\<rparr>)"

text \<open>\<open>item[header] += s\<close>: \<open>KeyError\<close> when \<open>item\<close> has no key \<open>header\<close>; a tuple or a
  dict cannot be extended by a string.\<close>

definition item_iadd :: "item \<Rightarrow> string \<Rightarrow> string \<Rightarrow> error + item" where
  "item_iadd it header s =
     (if header = ''name'' then
        (case i_name it of None \<Rightarrow> Inl (KeyError header)
         | Some n \<Rightarrow> Inr (it\<lparr>i_name := Some (n @ s)\<rparr>))
      else if header = ''algos'' then
        (case i_algos it of None \<Rightarrow> Inl (KeyError header)
         | Some a \<Rightarrow> Inl (TypeError ''can only concatenate tuple to tuple''))
      else if header = ''digests'' then
        (case i_digests it of None \<Rightarrow> Inl (KeyError header)
         | Some d \<Rightarrow> Inl (TypeError ''unsupported operand type(s) for +=''))
      else Inl (KeyError header))"

record pstate =
  kwargs :: "dict option"
  items :: "Section list"
  p_item :: item
  header :: string
  lineno :: nat

definition init_pstate :: pstate where
  "init_pstate = \<lparr>kwargs = None, items = [], p_item = empty_item, header = [], lineno = 0\<rparr>"

definition too_long_msg :: "nat \<Rightarrow> string" where
  "too_long_msg n = ''Manifest parsing error: line too long ('' @ str_nat n @ '')''"

definition orphan_msg :: "nat \<Rightarrow> string" where
  "orphan_msg n = ''Manifest parsing error: continued line without previous header! Line number ''
     @ str_nat n"

definition unrecognized_msg :: "string \<Rightarrow> string" where
  "unrecognized_msg line = ''Unrecognized line format: '' @ [CHR 0x22] @ line @ [CHR 0x22]"

text \<open>The branch of the loop body that handles a matched header line.\<close>

definition parse_header :: "pstate \<Rightarrow> string \<Rightarrow> string \<Rightarrow> error + pstate" where
  "parse_header st hdr val =
     (if ''-version'' = last_n 8 hdr then Inr st
      else if ''-digest-manifest'' = last_n 16 hdr then
        (case b64decode val of
           Inl e \<Rightarrow> Inl e
         | Inr d \<Rightarrow> Inr (st\<lparr>kwargs := Some (AList.update (but_last_n 16 hdr) d
                             (case kwargs st of None \<Rightarrow> [] | Some k \<Rightarrow> k))\<rparr>))
      else if ''name'' = hdr then
        (if directory_re_search val then Inr st
         else Inr (st\<lparr>p_item := (p_item st)\<lparr>i_name := Some val\<rparr>\<rparr>))
      else if ''digest-algorithms'' = hdr then
        Inr (st\<lparr>p_item := (p_item st)\<lparr>i_algos := Some (re_split_ws (lower val))\<rparr>\<rparr>)
      else if ''-digest'' = last_n 7 hdr then
        (case b64decode val of
           Inl e \<Rightarrow> Inl e
         | Inr d \<Rightarrow> Inr (st\<lparr>p_item := (p_item st)\<lparr>i_digests := Some (AList.update (but_last_n 7 hdr) d
                             (case i_digests (p_item st) of None \<Rightarrow> [] | Some k \<Rightarrow> k))\<rparr>\<rparr>))
      else Inr st)"

text \<open>One turn of the loop of \<open>Manifest.parse\<close>.\<close>

definition parse_line :: "pstate \<Rightarrow> string \<Rightarrow> error + pstate" where
  "parse_line st0 raw =
     (let st = st0\<lparr>lineno := lineno st0 + 1\<rparr>; line = rstrip raw in
      if length line > 72 then Inl (ParsingError (too_long_msg (lineno st)))
      else if line = [] then
        (if item_nonempty (p_item st) then
           (case Section_of_item (p_item st) of
              Inl e \<Rightarrow> Inl e
            | Inr sec \<Rightarrow> Inr (st\<lparr>items := items st @ [sec], p_item := empty_item, header := []\<rparr>))
         else Inr (st\<lparr>header := []\<rparr>))
      else (case continuation_re_match line of
          Some continued \<Rightarrow>
            (if header st = [] then Inl (ParsingError (orphan_msg (lineno st)))
             else (case item_iadd (p_item st) (header st) continued of
                Inl e \<Rightarrow> Inl e
              | Inr it \<Rightarrow> Inr (st\<lparr>p_item := it\<rparr>)))
        | None \<Rightarrow>
            (case headers_re_match line of
               None \<Rightarrow> Inl (ParsingError (unrecognized_msg line))
             | Some (g1, val) \<Rightarrow> parse_header (st\<lparr>header := lower g1\<rparr>) (lower g1) val)))"

fun parse_lines :: "pstate \<Rightarrow> string list \<Rightarrow> error + pstate" where
  "parse_lines st [] = Inr st"
| "parse_lines st (l # ls) = (case parse_line st l of Inl e \<Rightarrow> Inl e | Inr st' \<Rightarrow> parse_lines st' ls)"

text \<open>\<open>Manifest.parse(buf)\<close> for a string \<open>buf\<close>: the lines of the buffer, then two
  newlines.\<close>

definition parse :: "string \<Rightarrow> error + Manifest" where
  "parse buf = (case parse_lines init_pstate (readlines buf @ [[NL], [NL]]) of
       Inl e \<Rightarrow> Inl e
     | Inr st \<Rightarrow> Inr \<lparr>sections = items st, digest_manifests = kwargs st\<rparr>)"

section \<open>Archives and the file system\<close>

text \<open>
  A zip archive is the list of its stored entries, file name and content, in stored
  order. The file system maps a path to the file there. Opening an archive for reading
  creates one \<open>ZipInfo\<close> object per stored entry; \<open>alloc i\<close> is the address at which the
  object of the \<open>i\<close>-th entry is allocated, a parameter of the model.
\<close>

datatype fsfile = Archive "(string \<times> string) list" | Data string

type_synonym filesystem = "string \<Rightarrow> fsfile option"

record ZipFile =
  filelist :: "ZipInfo list"
  stored :: "(string \<times> string) list"

definition open_filelist :: "(nat \<Rightarrow> nat) \<Rightarrow> (string \<times> string) list \<Rightarrow> ZipInfo list" where
  "open_filelist alloc es = map (\<lambda>(i, e). \<lparr>filename = fst e, addr = alloc i\<rparr>) (enumerate 0 es)"

definition ZipFile_read :: "filesystem \<Rightarrow> (nat \<Rightarrow> nat) \<Rightarrow> string \<Rightarrow> error + ZipFile" where
  "ZipFile_read fs alloc path = (case fs path of
       None \<Rightarrow> Inl (IOError_errno 2 ''No such file or directory'' path)
     | Some (Data d) \<Rightarrow> Inl (BadZipfile ''File is not a zip file'')
     | Some (Archive es) \<Rightarrow> Inr \<lparr>filelist = open_filelist alloc es, stored = es\<rparr>)"

text \<open>\<open>zin.read(name)\<close>: the content of the last stored entry of that name.\<close>

definition zip_read :: "ZipFile \<Rightarrow> string \<Rightarrow> error + string" where
  "zip_read zin nm = (case map_of (rev (stored zin)) nm of
       None \<Rightarrow> Inl (KeyError nm)
     | Some d \<Rightarrow> Inr d)"

section \<open>JarExtractor\<close>

text \<open>
  The fields \<open>u_digests\<close> and \<open>u_sign\<close> stand for \<open>_digests\<close> and \<open>_sign\<close>. The properties
  \<open>manifest\<close> and \<open>signatures\<close> cache their value in \<open>_manifest\<close> and \<open>_sig\<close>; as
  \<open>_digests\<close> never changes once the constructor has returned, the cached value is the
  computed one, and the model computes it.
\<close>

record JarExtractor =
  inpath :: string
  outpath :: "string option"
  u_digests :: "Section list"
  omit_sections :: bool

text \<open>The loop of the constructor over the sorted entries.\<close>

fun digest_entries ::
  "(string \<Rightarrow> string) \<Rightarrow> (string \<Rightarrow> string) \<Rightarrow> ZipFile \<Rightarrow> Section list \<Rightarrow> ZipInfo list
     \<Rightarrow> error + Section list" where
  "digest_entries md5 sha1 zin acc [] = Inr acc"
| "digest_entries md5 sha1 zin acc (f # fs) =
     (if directory_re_search (filename f) then digest_entries md5 sha1 zin acc fs
      else (case zip_read zin (filename f) of
          Inl e \<Rightarrow> Inl e
        | Inr data \<Rightarrow>
            (let ds = digest md5 sha1 data;
                 item = \<lparr>name = filename f, algos = map fst ds, digests = ds\<rparr>
             in digest_entries md5 sha1 zin (acc @ [item]) fs)))"

definition JarExtractor_init ::
  "(string \<Rightarrow> string) \<Rightarrow> (string \<Rightarrow> string) \<Rightarrow> filesystem \<Rightarrow> (nat \<Rightarrow> nat)
     \<Rightarrow> string \<Rightarrow> string option \<Rightarrow> bool \<Rightarrow> error + JarExtractor" where
  "JarExtractor_init md5 sha1 fs alloc path outp omit_signature_sections =
     (case ZipFile_read fs alloc path of
        Inl e \<Rightarrow> Inl e
      | Inr zin \<Rightarrow>
          (case digest_entries md5 sha1 zin [] (sort_key file_key (filelist zin)) of
             Inl e \<Rightarrow> Inl e
           | Inr ds \<Rightarrow> Inr \<lparr>inpath = path, outpath = outp, u_digests = ds,
                            omit_sections = omit_signature_sections\<rparr>))"

definition u_sign :: "(string \<Rightarrow> string) \<Rightarrow> (string \<Rightarrow> string) \<Rightarrow> Section \<Rightarrow> Section" where
  "u_sign md5 sha1 item =
     (let ds = digest md5 sha1 (Section_str item)
      in \<lparr>name = name item, algos = map fst ds, digests = ds\<rparr>)"

definition manifest :: "JarExtractor \<Rightarrow> Manifest" where
  "manifest self = \<lparr>sections = u_digests self, digest_manifests = None\<rparr>"

definition signatures :: "(string \<Rightarrow> string) \<Rightarrow> (string \<Rightarrow> string) \<Rightarrow> JarExtractor \<Rightarrow> Signature" where
  "signatures md5 sha1 self =
     \<lparr>sections = map (u_sign md5 sha1) (u_digests self),
      digest_manifests = Some (digest md5 sha1 (Manifest_str (manifest self))),
      omit_individual_sections = omit_sections self\<rparr>"

definition signature :: "(string \<Rightarrow> string) \<Rightarrow> (string \<Rightarrow> string) \<Rightarrow> JarExtractor \<Rightarrow> string" where
  "signature md5 sha1 self = Signature_header (signatures md5 sha1 self) @ [NL]"

text \<open>\<open>a or b\<close> on optional strings: \<open>None\<close> and the empty string are false.\<close>

definition truthy :: "string option \<Rightarrow> bool" where
  "truthy x \<longleftrightarrow> x \<noteq> None \<and> x \<noteq> Some []"

definition py_or :: "string option \<Rightarrow> string option \<Rightarrow> string option" where
  "py_or a b = (if truthy a then a else b)"

text \<open>The loop of \<open>make_signed\<close> that copies the entries of the input archive.\<close>

fun copy_entries ::
  "ZipFile \<Rightarrow> (string \<times> string) list \<Rightarrow> ZipInfo list \<Rightarrow> error + (string \<times> string) list" where
  "copy_entries zin zout [] = Inr zout"
| "copy_entries zin zout (f # fs) = (case zip_read zin (filename f) of
       Inl e \<Rightarrow> Inl e
     | Inr data \<Rightarrow> copy_entries zin (zout @ [(filename f, data)]) fs)"

text \<open>
  \<open>make_signed\<close> returns its outcome and the file system it leaves. \<open>sorted\<close> without a
  key orders the \<open>ZipInfo\<close> objects by the default comparison of Python 2, their
  addresses.
\<close>

definition make_signed ::
  "(string \<Rightarrow> string) \<Rightarrow> (string \<Rightarrow> string) \<Rightarrow> (nat \<Rightarrow> nat) \<Rightarrow> JarExtractor \<Rightarrow> string
     \<Rightarrow> string option \<Rightarrow> filesystem \<Rightarrow> (error + unit) \<times> filesystem" where
  "make_signed md5 sha1 alloc self sig outp fs =
     (let outp = py_or outp (outpath self) in
      if \<not> truthy outp then (Inl (IOError ''No output file specified''), fs)
      else (case outp of
          None \<Rightarrow> (Inl (IOError ''No output file specified''), fs)
        | Some p \<Rightarrow>
            if fs p \<noteq> None then (Inl (IOError (''File already exists: '' @ p)), fs)
            else (case ZipFile_read fs alloc (inpath self) of
                Inl e \<Rightarrow> (Inl e, fs)
              | Inr zin \<Rightarrow>
                  (case copy_entries zin [(''META-INF/zigbert.rsa'', sig)]
                          (sort_key addr (filelist zin)) of
                     Inl e \<Rightarrow> (Inl e, fs(p \<mapsto> Archive [(''META-INF/zigbert.rsa'', sig)]))
                   | Inr zout \<Rightarrow>
                       (Inr (), fs(p \<mapsto> Archive (zout
                          @ [(''META-INF/manifest.mf'', Manifest_str (manifest self)),
                             (''META-INF/zigbert.sf'', Signature_str (signatures md5 sha1 self))])))))))"

section \<open>Notions used to state the properties\<close>

text \<open>The section the constructor of \<open>JarExtractor\<close> builds for an archive entry.\<close>

definition entry_section :: "(string \<Rightarrow> string) \<Rightarrow> (string \<Rightarrow> string) \<Rightarrow> ZipFile \<Rightarrow> ZipInfo \<Rightarrow> Section" where
  "entry_section md5 sha1 zin f =
     \<lparr>name = filename f, algos = [''sha1'', ''md5''],
      digests = digest md5 sha1 (case map_of (rev (stored zin)) (filename f) of Some d \<Rightarrow> d | None \<Rightarrow> [])\<rparr>"

text \<open>The priority key in the words of the specification: the triple of priority
  class, lower-cased directory component and lower-cased base name, compared as a
  tuple. The program's \<open>file_key\<close> is compared with it below.\<close>

definition spec_priority_key :: "string \<Rightarrow> nat \<times> string \<times> string" where
  "spec_priority_key nm =
     (prio nm, fst (os_path_split (lower nm)), snd (os_path_split (lower nm)))"

text \<open>The invariant of a section in the words of the specification: every algorithm of
  the algorithm set has an entry in the digests, and every key of the digests is in the
  algorithm set.\<close>

definition section_invariant :: "Section \<Rightarrow> bool" where
  "section_invariant s \<longleftrightarrow>
     list_all (\<lambda>a. map_of (digests s) a \<noteq> None) (algos s)
     \<and> list_all (\<lambda>k. k \<in> set (algos s)) (map fst (digests s))"

text \<open>The three ways a line is malformed for \<open>Manifest.parse\<close>, on the raw line and the
  header that is active when the line is read.\<close>

definition line_too_long :: "string \<Rightarrow> bool" where
  "line_too_long raw \<longleftrightarrow> length (rstrip raw) > 72"

definition orphan_continuation :: "string \<Rightarrow> string \<Rightarrow> bool" where
  "orphan_continuation hdr raw \<longleftrightarrow>
     length (rstrip raw) \<le> 72 \<and> rstrip raw \<noteq> [] \<and> continuation_re_match (rstrip raw) \<noteq> None \<and> hdr = []"

definition unrecognized_line :: "string \<Rightarrow> bool" where
  "unrecognized_line raw \<longleftrightarrow>
     length (rstrip raw) \<le> 72 \<and> rstrip raw \<noteq> [] \<and> continuation_re_match (rstrip raw) = None
     \<and> headers_re_match (rstrip raw) = None"

text \<open>The manifests for which the round trip through \<open>str\<close> and \<open>Manifest.parse\<close> is
  proved. The name has no newline, no whitespace at either end, is not a directory
  name, and its \<open>Name\<close> line has at most 143 characters, so that it is wrapped at most
  once; when it is wrapped, the 66th character of the name, the last of the first
  physical line, is neither whitespace nor a path separator. The digests are a
  non-empty dict with keys among \<open>md5\<close> and \<open>sha1\<close>, whose values have at most 45 bytes
  for \<open>md5\<close> and at most 42 for \<open>sha1\<close> (the longest whose digest line has no more than
  72 characters), and the algorithm set is the set of keys.\<close>

definition roundtrip_name :: "string \<Rightarrow> bool" where
  "roundtrip_name n \<longleftrightarrow>
     NL \<notin> set n \<and> (n = [] \<or> (\<not> isspace (hd n) \<and> \<not> isspace (last n) \<and> \<not> is_sep (last n)))
     \<and> length n \<le> 137
     \<and> (length n \<le> 66 \<or> (\<not> isspace (n ! 65) \<and> \<not> is_sep (n ! 65)))"

definition roundtrip_section :: "Section \<Rightarrow> bool" where
  "roundtrip_section s \<longleftrightarrow>
     roundtrip_name (name s) \<and> distinct (map fst (digests s)) \<and> digests s \<noteq> []
     \<and> set (map fst (digests s)) \<subseteq> {''md5'', ''sha1''}
     \<and> set (algos s) = set (map fst (digests s))
     \<and> list_all (\<lambda>kv. length (snd kv) \<le> (if fst kv = ''md5'' then 45 else 42)) (digests s)"

section \<open>The constructor, step by step\<close>

lemma map_of_rev_Some:
  "nm \<in> fst ` set es \<Longrightarrow> \<exists>d. map_of (rev es) nm = Some d"
  by (metis domD dom_map_of_conv_image_fst set_rev)

lemma digest_entries_step:
  "map_of (rev (stored zin)) (filename f) = Some d \<Longrightarrow> \<not> directory_re_search (filename f) \<Longrightarrow>
   digest_entries md5 sha1 zin acc (f # fl) = digest_entries md5 sha1 zin (acc @ [entry_section md5 sha1 zin f]) fl"
  by (simp add: zip_read_def entry_section_def digest_def Let_def)

lemma digest_entries_eq:
  "\<forall>f \<in> set fl. filename f \<in> fst ` set (stored zin) \<Longrightarrow>
   digest_entries md5 sha1 zin acc fl =
     Inr (acc @ map (entry_section md5 sha1 zin) (filter (\<lambda>f. \<not> directory_re_search (filename f)) fl))"
proof (induction fl arbitrary: acc)
  case Nil
  then show ?case by simp
next
  case (Cons f fl)
  from Cons.prems have mem: "filename f \<in> fst ` set (stored zin)" by simp
  from map_of_rev_Some [OF mem] obtain d where d: "map_of (rev (stored zin)) (filename f) = Some d" ..
  from Cons.prems have rest: "\<forall>f \<in> set fl. filename f \<in> fst ` set (stored zin)" by simp
  show ?case
  proof (cases "directory_re_search (filename f)")
    case True
    then show ?thesis using Cons.IH [OF rest] by simp
  next
    case False
    then show ?thesis
      using Cons.IH [OF rest, of "acc @ [entry_section md5 sha1 zin f]"] digest_entries_step [OF d False]
      by simp
  qed
qed

lemma ZipFile_read_Archive:
  "fs path = Some (Archive es) \<Longrightarrow>
   ZipFile_read fs alloc path = Inr \<lparr>filelist = open_filelist alloc es, stored = es\<rparr>"
  by (simp add: ZipFile_read_def)

lemma ZipFile_read_Inr:
  "ZipFile_read fs alloc path = Inr zin \<Longrightarrow> \<exists>es. fs path = Some (Archive es)"
  by (simp add: ZipFile_read_def split: option.splits fsfile.splits)

lemma open_filelist_names: "map filename (open_filelist alloc es) = map fst es"
proof -
  have "map filename (map (\<lambda>(i, e). \<lparr>filename = fst e, addr = alloc i\<rparr>) (enumerate n es)) = map fst es" for n
    by (induction es arbitrary: n) simp_all
  then show ?thesis by (simp add: open_filelist_def)
qed

lemma open_filelist_stored:
  "f \<in> set (open_filelist alloc es) \<Longrightarrow> filename f \<in> fst ` set es"
proof -
  assume "f \<in> set (open_filelist alloc es)"
  then have "filename f \<in> set (map filename (open_filelist alloc es))" by simp
  then show ?thesis by (simp add: open_filelist_names)
qed

lemma JarExtractor_init_eq:
  assumes "fs path = Some (Archive es)"
  shows "JarExtractor_init md5 sha1 fs alloc path outp omit =
     Inr \<lparr>inpath = path, outpath = outp,
          u_digests = map (entry_section md5 sha1 \<lparr>filelist = open_filelist alloc es, stored = es\<rparr>)
             (filter (\<lambda>f. \<not> directory_re_search (filename f))
                (sort_key file_key (open_filelist alloc es))),
          omit_sections = omit\<rparr>"
proof -
  let ?zin = "\<lparr>filelist = open_filelist alloc es, stored = es\<rparr>"
  have "\<forall>f \<in> set (sort_key file_key (open_filelist alloc es)). filename f \<in> fst ` set (stored ?zin)"
    by (simp add: open_filelist_stored)
  from digest_entries_eq [OF this, of md5 sha1 "[]"]
  have de: "digest_entries md5 sha1 ?zin [] (sort_key file_key (open_filelist alloc es)) =
     Inr (map (entry_section md5 sha1 ?zin) (filter (\<lambda>f. \<not> directory_re_search (filename f)) (sort_key file_key (open_filelist alloc es))))"
    by simp
  show ?thesis
    unfolding JarExtractor_init_def ZipFile_read_Archive [of fs path es alloc, OF assms] by (simp add: de)
qed

lemma JarExtractor_init_Inr:
  assumes "JarExtractor_init md5 sha1 fs alloc path outp omit = Inr je"
  shows "\<exists>es. fs path = Some (Archive es)"
proof (cases "ZipFile_read fs alloc path")
  case (Inl e)
  with assms show ?thesis by (simp add: JarExtractor_init_def)
next
  case (Inr zin)
  then show ?thesis by (rule ZipFile_read_Inr)
qed

lemma insort_key_map:
  "map f (insort_key (\<lambda>x. g (f x)) x xs) = insort_key g (f x) (map f xs)"
  by (induction xs) simp_all

lemma sort_key_map:
  "map f (sort_key (\<lambda>x. g (f x)) xs) = sort_key g (map f xs)"
  by (induction xs) (simp_all add: insort_key_map)

lemma file_key_names:
  "map filename (sort_key file_key zs) = sort_key (\<lambda>n. file_key \<lparr>filename = n, addr = 0\<rparr>) (map filename zs)"
proof -
  have "file_key = (\<lambda>z. (\<lambda>n. file_key \<lparr>filename = n, addr = 0\<rparr>) (filename z))"
    by (rule ext) (simp add: file_key_def)
  then have "sort_key file_key zs = sort_key (\<lambda>z. (\<lambda>n. file_key \<lparr>filename = n, addr = 0\<rparr>) (filename z)) zs"
    by simp
  then show ?thesis
    using sort_key_map [of filename "\<lambda>n. file_key \<lparr>filename = n, addr = 0\<rparr>" zs] by simp
qed

lemma example_order:
  "sort_key (\<lambda>n. file_key \<lparr>filename = n, addr = 0\<rparr>) [''foo.txt'', ''install.rdf'', ''chrome.manifest'', ''LICENSE'']
     = [''install.rdf'', ''chrome.manifest'', ''foo.txt'', ''LICENSE'']"
  by code_simp


lemma entry_section_invariant: "section_invariant (entry_section md5 sha1 zin f)"
  by (simp add: section_invariant_def entry_section_def digest_def)

lemma u_sign_invariant: "section_invariant (u_sign md5 sha1 item)"
  by (simp add: section_invariant_def u_sign_def digest_def Let_def)

section \<open>Errors of the parsing loop\<close>

lemma b64decode_not_ParsingError: "b64decode v \<noteq> Inl (ParsingError msg)"
  by (simp add: b64decode_def split: prod.splits)

lemma parse_header_not_ParsingError: "parse_header st hdr val \<noteq> Inl (ParsingError msg)"
  using b64decode_not_ParsingError [of val msg]
  by (cases "b64decode val") (simp_all add: parse_header_def)

lemma Section_of_item_not_ParsingError: "Section_of_item it \<noteq> Inl (ParsingError msg)"
  by (simp add: Section_of_item_def split: option.splits)

lemma item_iadd_not_ParsingError: "item_iadd it hdr s \<noteq> Inl (ParsingError msg)"
  by (simp add: item_iadd_def split: option.splits)

lemma parse_line_ParsingError:
  "parse_line st raw = Inl (ParsingError msg) \<longleftrightarrow>
     line_too_long raw \<and> msg = too_long_msg (lineno st + 1)
   \<or> orphan_continuation (header st) raw \<and> msg = orphan_msg (lineno st + 1)
   \<or> unrecognized_line raw \<and> msg = unrecognized_msg (rstrip raw)"
proof (cases "length (rstrip raw) > 72")
  case True
  then show ?thesis
    by (auto simp: parse_line_def Let_def line_too_long_def orphan_continuation_def unrecognized_line_def)
next
  case short: False
  show ?thesis
  proof (cases "rstrip raw = []")
    case True
    with short show ?thesis
      using Section_of_item_not_ParsingError [of "p_item st" msg]
      by (cases "Section_of_item (p_item st)")
         (auto simp: parse_line_def Let_def line_too_long_def orphan_continuation_def unrecognized_line_def)
  next
    case nonblank: False
    show ?thesis
    proof (cases "continuation_re_match (rstrip raw)")
      case (Some g)
      with short nonblank show ?thesis
        using item_iadd_not_ParsingError [of "p_item st" "header st" g msg]
        by (cases "item_iadd (p_item st) (header st) g")
           (auto simp: parse_line_def Let_def line_too_long_def orphan_continuation_def unrecognized_line_def)
    next
      case None
      show ?thesis
      proof (cases "headers_re_match (rstrip raw)")
        case nomatch: None
        with short nonblank None show ?thesis
          by (auto simp: parse_line_def Let_def line_too_long_def orphan_continuation_def unrecognized_line_def)
      next
        case (Some gv)
        obtain g1 val where gv: "gv = (g1, val)" by (cases gv)
        with short nonblank None Some show ?thesis
          using parse_header_not_ParsingError
          by (auto simp: parse_line_def Let_def line_too_long_def orphan_continuation_def unrecognized_line_def)
      qed
    qed
  qed
qed

lemma parse_line_lineno: "parse_line st raw = Inr st' \<Longrightarrow> lineno st' = lineno st + 1"
  by (auto simp: parse_line_def Let_def parse_header_def
      split: if_splits option.splits sum.splits prod.splits)

lemma parse_lines_Inl:
  "parse_lines st ls = Inl e \<longleftrightarrow>
     (\<exists>n st'. n < length ls \<and> parse_lines st (take n ls) = Inr st' \<and> lineno st' = lineno st + n
        \<and> parse_line st' (ls ! n) = Inl e)"
proof (induction ls arbitrary: st)
  case Nil
  then show ?case by simp
next
  case (Cons l ls)
  show ?case
  proof (cases "parse_line st l")
    case (Inl e')
    show ?thesis
    proof
      assume "parse_lines st (l # ls) = Inl e"
      with Inl have "e' = e" by simp
      with Inl have "0 < length (l # ls) \<and> parse_lines st (take 0 (l # ls)) = Inr st
          \<and> lineno st = lineno st + 0 \<and> parse_line st ((l # ls) ! 0) = Inl e"
        by simp
      then show "\<exists>n st'. n < length (l # ls) \<and> parse_lines st (take n (l # ls)) = Inr st'
          \<and> lineno st' = lineno st + n \<and> parse_line st' ((l # ls) ! n) = Inl e"
        by blast
    next
      assume "\<exists>n st'. n < length (l # ls) \<and> parse_lines st (take n (l # ls)) = Inr st'
          \<and> lineno st' = lineno st + n \<and> parse_line st' ((l # ls) ! n) = Inl e"
      then obtain n st' where n: "n < length (l # ls)" and t: "parse_lines st (take n (l # ls)) = Inr st'"
        and pl: "parse_line st' ((l # ls) ! n) = Inl e"
        by blast
      show "parse_lines st (l # ls) = Inl e"
      proof (cases n)
        case 0
        with t pl Inl show ?thesis by simp
      next
        case (Suc m)
        with t Inl show ?thesis by simp
      qed
    qed
  next
    case (Inr st1)
    from parse_line_lineno [OF Inr] have ln: "lineno st1 = lineno st + 1" .
    show ?thesis
    proof
      assume "parse_lines st (l # ls) = Inl e"
      with Inr have "parse_lines st1 ls = Inl e" by simp
      with Cons.IH [of st1] obtain n st' where n: "n < length ls"
        and t: "parse_lines st1 (take n ls) = Inr st'" and l': "lineno st' = lineno st1 + n"
        and pl: "parse_line st' (ls ! n) = Inl e"
        by blast
      from n t l' pl ln Inr
      have "Suc n < length (l # ls) \<and> parse_lines st (take (Suc n) (l # ls)) = Inr st'
          \<and> lineno st' = lineno st + Suc n \<and> parse_line st' ((l # ls) ! Suc n) = Inl e"
        by simp
      then show "\<exists>n st'. n < length (l # ls) \<and> parse_lines st (take n (l # ls)) = Inr st'
          \<and> lineno st' = lineno st + n \<and> parse_line st' ((l # ls) ! n) = Inl e"
        by blast
    next
      assume "\<exists>n st'. n < length (l # ls) \<and> parse_lines st (take n (l # ls)) = Inr st'
          \<and> lineno st' = lineno st + n \<and> parse_line st' ((l # ls) ! n) = Inl e"
      then obtain n st' where n: "n < length (l # ls)" and t: "parse_lines st (take n (l # ls)) = Inr st'"
        and l': "lineno st' = lineno st + n"
        and pl: "parse_line st' ((l # ls) ! n) = Inl e"
        by blast
      show "parse_lines st (l # ls) = Inl e"
      proof (cases n)
        case 0
        with t pl Inr show ?thesis by simp
      next
        case (Suc m)
        with n t l' pl Inr ln
        have "m < length ls \<and> parse_lines st1 (take m ls) = Inr st' \<and> lineno st' = lineno st1 + m
           \<and> parse_line st' (ls ! m) = Inl e"
          by simp
        then have "parse_lines st1 ls = Inl e"
          using Cons.IH [of st1] by blast
        with Inr show ?thesis by simp
      qed
    qed
  qed
qed

lemma parse_lines_lineno:
  "parse_lines st ls = Inr st' \<Longrightarrow> lineno st' = lineno st + length ls"
proof (induction ls arbitrary: st)
  case Nil
  then show ?case by simp
next
  case (Cons l ls)
  show ?case
  proof (cases "parse_line st l")
    case (Inl e)
    with Cons.prems show ?thesis by simp
  next
    case (Inr st1)
    with Cons.prems have "parse_lines st1 ls = Inr st'" by simp
    from Cons.IH [OF this] parse_line_lineno [OF Inr] show ?thesis by simp
  qed
qed

section \<open>Decoding what \<open>b64encode\<close> wrote\<close>

lemma index_of_nth:
  "distinct xs \<Longrightarrow> i < length xs \<Longrightarrow> index_of (xs ! i) xs = Some i"
proof (induction xs arbitrary: i)
  case Nil
  then show ?case by simp
next
  case (Cons x xs)
  show ?case
  proof (cases i)
    case 0
    then show ?thesis by simp
  next
    case (Suc j)
    with Cons.prems have "j < length xs" and "distinct xs" and "xs ! j \<noteq> x"
      by auto
    with Cons.IH [of j] Suc show ?thesis by simp
  qed
qed

lemma b64_alphabet_length: "length b64_alphabet = 64"
  by (simp add: b64_alphabet_def)

lemma b64_alphabet_distinct: "distinct b64_alphabet"
  by (simp add: b64_alphabet_def)

lemma b64_alphabet_chars:
  "list_all (\<lambda>c. c \<noteq> PAD \<and> (of_char c :: nat) \<le> 127 \<and> \<not> isspace c) b64_alphabet"
  by (simp add: b64_alphabet_def PAD_def isspace_def)

lemma b64_char_props:
  assumes "i < 64"
  shows "table_a2b (b64_char i) = Some i" and "b64_char i \<noteq> PAD"
    and "(of_char (b64_char i) :: nat) \<le> 127" and "\<not> isspace (b64_char i)"
proof -
  from assms have "b64_char i \<in> set b64_alphabet"
    by (simp add: b64_char_def b64_alphabet_length)
  with b64_alphabet_chars
  have p: "b64_char i \<noteq> PAD \<and> (of_char (b64_char i) :: nat) \<le> 127 \<and> \<not> isspace (b64_char i)"
    unfolding list_all_iff by blast
  then show "b64_char i \<noteq> PAD" and "(of_char (b64_char i) :: nat) \<le> 127" and "\<not> isspace (b64_char i)"
    by simp_all
  from assms have "index_of (b64_char i) b64_alphabet = Some i"
    unfolding b64_char_def by (intro index_of_nth b64_alphabet_distinct) (simp add: b64_alphabet_length)
  with p show "table_a2b (b64_char i) = Some i"
    by (simp add: table_a2b_def)
qed

lemma a2b_step:
  assumes "v < 64"
  shows "a2b_loop q lc lb out (b64_char v # cs) =
     (if lb + 6 \<ge> 8
      then a2b_loop ((q + 1) mod 4) ((lc * 64 + v) mod 2 ^ (lb + 6 - 8)) (lb + 6 - 8)
             (out @ [char_of ((lc * 64 + v) div 2 ^ (lb + 6 - 8))]) cs
      else a2b_loop ((q + 1) mod 4) (lc * 64 + v) (lb + 6) out cs)"
proof -
  from b64_char_props(4) [OF assms] have "b64_char v \<noteq> CHR 0x0D" "b64_char v \<noteq> CHR 0x0A" "b64_char v \<noteq> CHR '' ''"
    by (auto simp: isspace_def)
  with b64_char_props [OF assms] show ?thesis
    by (simp add: Let_def)
qed

declare a2b_loop.simps [simp del]

lemma a2b_s1:
  "v < 64 \<Longrightarrow> a2b_loop 0 0 0 out (b64_char v # r) = a2b_loop (Suc 0) v 6 out r"
  using a2b_step [of v 0 0 0 out r] by simp

lemma a2b_s2:
  "v < 64 \<Longrightarrow> a2b_loop (Suc 0) lc 6 out (b64_char v # r) =
      a2b_loop (Suc (Suc 0)) ((lc * 64 + v) mod 16) 4 (out @ [char_of ((lc * 64 + v) div 16)]) r"
  using a2b_step [of v "Suc 0" lc 6 out r] by simp

lemma a2b_s3:
  "v < 64 \<Longrightarrow> a2b_loop (Suc (Suc 0)) lc 4 out (b64_char v # r) =
      a2b_loop 3 ((lc * 64 + v) mod 4) 2 (out @ [char_of ((lc * 64 + v) div 4)]) r"
  using a2b_step [of v "Suc (Suc 0)" lc 4 out r] by simp

lemma a2b_s4:
  "v < 64 \<Longrightarrow> a2b_loop 3 lc 2 out (b64_char v # r) = a2b_loop 0 0 0 (out @ [char_of (lc * 64 + v)]) r"
  using a2b_step [of v 3 lc 2 out r] by simp

lemma a2b_pad2: "a2b_loop (Suc (Suc 0)) lc 4 out [PAD, PAD] = (0, out)"
  by (simp add: a2b_loop.simps PAD_def table_a2b_def)

lemma a2b_pad1: "a2b_loop 3 lc 2 out [PAD] = (0, out)"
  by (simp add: a2b_loop.simps PAD_def)

lemma div_mod_high:
  fixes a k n :: nat
  assumes "a < n"
  shows "(a + k * n) div n = k" and "(a + k * n) mod n = a"
proof -
  from assms have n: "n \<noteq> 0" by auto
  have "(a + k * n) div n = k + a div n" using n by (rule div_mult_self1)
  with assms show "(a + k * n) div n = k" by simp
  have "(a + k * n) mod n = a mod n" by (rule mod_mult_self1)
  with assms show "(a + k * n) mod n = a" by simp
qed

lemma sextet_arith:
  fixes q r b s c :: nat
  shows "b < 16 \<Longrightarrow> (q * 64 + (r * 16 + b)) div 16 = q * 4 + r"
    and "b < 16 \<Longrightarrow> (q * 64 + (r * 16 + b)) mod 16 = b"
    and "c < 4 \<Longrightarrow> (b * 64 + (s * 4 + c)) div 4 = b * 16 + s"
    and "c < 4 \<Longrightarrow> (b * 64 + (s * 4 + c)) mod 4 = c"
proof -
  have e1: "q * 64 + (r * 16 + b) = b + (q * 4 + r) * 16" by simp
  have e2: "b * 64 + (s * 4 + c) = c + (b * 16 + s) * 4" by simp
  show "b < 16 \<Longrightarrow> (q * 64 + (r * 16 + b)) div 16 = q * 4 + r"
    unfolding e1 by (rule div_mod_high)
  show "b < 16 \<Longrightarrow> (q * 64 + (r * 16 + b)) mod 16 = b"
    unfolding e1 by (rule div_mod_high)
  show "c < 4 \<Longrightarrow> (b * 64 + (s * 4 + c)) div 4 = b * 16 + s"
    unfolding e2 by (rule div_mod_high)
  show "c < 4 \<Longrightarrow> (b * 64 + (s * 4 + c)) mod 4 = c"
    unfolding e2 by (rule div_mod_high)
qed

lemma a2b_encode: "a2b_loop 0 0 0 out (b64encode v) = (0, out @ v)"
proof (induction v arbitrary: out rule: b64encode.induct)
  case 1
  show ?case by (simp add: a2b_loop.simps)
next
  case (2 a)
  define x where "x = (of_char a :: nat)"
  have "x < 256" by (simp add: x_def)
  then have v: "x div 4 < 64" "x mod 4 * 16 < 64"
    by simp_all
  have d: "(x div 4 * 64 + x mod 4 * 16) div 16 = x"
    using sextet_arith(1) [of 0 "x div 4" "x mod 4"] by simp
  have "a2b_loop 0 0 0 out (b64encode [a]) =
      a2b_loop 0 0 0 out [b64_char (x div 4), b64_char (x mod 4 * 16), PAD, PAD]"
    by (simp add: x_def Let_def)
  also have "\<dots> = (0, out @ [char_of ((x div 4 * 64 + x mod 4 * 16) div 16)])"
    by (simp only: a2b_s1 [OF v(1)] a2b_s2 [OF v(2)] a2b_pad2)
  finally show ?case by (simp add: d x_def)
next
  case (3 a b)
  define x where "x = (of_char a :: nat)"
  define y where "y = (of_char b :: nat)"
  have xy: "x < 256" "y < 256" by (simp_all add: x_def y_def)
  then have v: "x div 4 < 64" "x mod 4 * 16 + y div 16 < 64" "y mod 16 * 4 < 64"
    by simp_all
  from xy have b: "y div 16 < 16" by simp
  have d1: "(x div 4 * 64 + (x mod 4 * 16 + y div 16)) div 16 = x"
    by (simp only: sextet_arith(1) [OF b] div_mult_mod_eq)
  have m1: "(x div 4 * 64 + (x mod 4 * 16 + y div 16)) mod 16 = y div 16"
    by (simp only: sextet_arith(2) [OF b])
  have d2: "(y div 16 * 64 + y mod 16 * 4) div 4 = y"
    using sextet_arith(3) [of 0 "y div 16" "y mod 16"] by simp
  have "a2b_loop 0 0 0 out (b64encode [a, b]) =
      a2b_loop 0 0 0 out [b64_char (x div 4), b64_char (x mod 4 * 16 + y div 16), b64_char (y mod 16 * 4), PAD]"
    by (simp add: x_def y_def Let_def)
  also have "\<dots> = (0, (out @ [char_of x]) @ [char_of y])"
    by (simp only: a2b_s1 [OF v(1)] a2b_s2 [OF v(2)] a2b_s3 [OF v(3)] a2b_pad1 d1 m1 d2)
  finally show ?case by (simp add: x_def y_def)
next
  case (4 a b c rest)
  define x where "x = (of_char a :: nat)"
  define y where "y = (of_char b :: nat)"
  define z where "z = (of_char c :: nat)"
  have xyz: "x < 256" "y < 256" "z < 256" by (simp_all add: x_def y_def z_def)
  then have v: "x div 4 < 64" "x mod 4 * 16 + y div 16 < 64" "y mod 16 * 4 + z div 64 < 64" "z mod 64 < 64"
    by simp_all
  from xyz have b: "y div 16 < 16" and c: "z div 64 < 4" by simp_all
  have d1: "(x div 4 * 64 + (x mod 4 * 16 + y div 16)) div 16 = x"
    by (simp only: sextet_arith(1) [OF b] div_mult_mod_eq)
  have m1: "(x div 4 * 64 + (x mod 4 * 16 + y div 16)) mod 16 = y div 16"
    by (simp only: sextet_arith(2) [OF b])
  have d2: "(y div 16 * 64 + (y mod 16 * 4 + z div 64)) div 4 = y"
    by (simp only: sextet_arith(3) [OF c] div_mult_mod_eq)
  have m2: "(y div 16 * 64 + (y mod 16 * 4 + z div 64)) mod 4 = z div 64"
    by (simp only: sextet_arith(4) [OF c])
  have d3: "z div 64 * 64 + z mod 64 = z" by simp
  have "a2b_loop 0 0 0 out (b64encode (a # b # c # rest)) =
      a2b_loop 0 0 0 out (b64_char (x div 4) # b64_char (x mod 4 * 16 + y div 16)
         # b64_char (y mod 16 * 4 + z div 64) # b64_char (z mod 64) # b64encode rest)"
    by (simp add: x_def y_def z_def Let_def)
  also have "\<dots> = a2b_loop 0 0 0 (((out @ [char_of x]) @ [char_of y]) @ [char_of z]) (b64encode rest)"
    by (simp only: a2b_s1 [OF v(1)] a2b_s2 [OF v(2)] a2b_s3 [OF v(3)] a2b_s4 [OF v(4)] d1 m1 d2 m2 d3)
  also have "\<dots> = (0, (((out @ [char_of x]) @ [char_of y]) @ [char_of z]) @ rest)"
    by (rule "4.IH")
  finally show ?case by (simp add: x_def y_def z_def)
qed

lemma b64decode_b64encode: "b64decode (b64encode v) = Inr v"
  by (simp add: b64decode_def a2b_encode)

lemma b64encode_length: "length (b64encode v) = 4 * ((length v + 2) div 3)"
proof (induction v rule: b64encode.induct)
  case (4 a b c rest)
  have "(length (a # b # c # rest) + 2) div 3 = Suc ((length rest + 2) div 3)"
    by simp
  with 4 show ?case by (simp add: Let_def)
qed (simp_all add: Let_def)

lemma sextet_bounds:
  fixes x y z :: nat
  assumes "x < 256" "y < 256" "z < 256"
  shows "x div 4 < 64" "x mod 4 * 16 < 64" "x mod 4 * 16 + y div 16 < 64"
    "y mod 16 * 4 < 64" "y mod 16 * 4 + z div 64 < 64" "z mod 64 < 64"
  using assms by simp_all

lemma b64encode_chars: "c \<in> set (b64encode v) \<Longrightarrow> \<not> isspace c"
proof (induction v rule: b64encode.induct)
  case 1
  then show ?case by simp
next
  case (2 a)
  note bs = sextet_bounds [OF nat_of_char_less_256 [of a] nat_of_char_less_256 [of a] nat_of_char_less_256 [of a]]
  from bs(1,2) [THEN b64_char_props(4)] 2 show ?case
    by (auto simp: Let_def PAD_def isspace_def)
next
  case (3 a b)
  note bs = sextet_bounds [OF nat_of_char_less_256 [of a] nat_of_char_less_256 [of b] nat_of_char_less_256 [of b]]
  from bs(1,3,4) [THEN b64_char_props(4)] 3 show ?case
    by (auto simp: Let_def PAD_def isspace_def)
next
  case (4 a b c' rest)
  note bs = sextet_bounds [OF nat_of_char_less_256 [of a] nat_of_char_less_256 [of b] nat_of_char_less_256 [of c']]
  from bs(1,3,5,6) [THEN b64_char_props(4)] 4 show ?case
    by (auto simp: Let_def)
qed

section \<open>Parsing what \<open>str\<close> wrote, line by line\<close>

lemma splitlines_line:
  "NL \<notin> set l \<Longrightarrow> splitlines acc (l @ NL # rest) = (acc @ l @ [NL]) # splitlines [] rest"
  by (induction l arbitrary: acc) auto

lemma readlines_line:
  "NL \<notin> set l \<Longrightarrow> readlines (l @ NL # rest) = (l @ [NL]) # readlines rest"
  using splitlines_line [of l "[]" rest] by (simp add: readlines_def)

lemma readlines_Nil: "readlines [] = []"
  by (simp add: readlines_def)

lemma parse_lines_append:
  "parse_lines st (xs @ ys) = (case parse_lines st xs of Inl e \<Rightarrow> Inl e | Inr st' \<Rightarrow> parse_lines st' ys)"
  by (induction xs arbitrary: st) (simp_all split: sum.splits)

lemma rstrip_NL: "rstrip [NL] = []"
  by (simp add: rstrip_def isspace_def NL_def)

lemma parse_line_blank_empty:
  "p_item st = empty_item \<Longrightarrow>
   parse_line st [NL] = Inr (st\<lparr>lineno := lineno st + 1, header := []\<rparr>)"
  by (simp add: parse_line_def rstrip_NL Let_def item_nonempty_def empty_item_def)

lemma parse_lines_blanks:
  "p_item st = empty_item \<Longrightarrow>
   \<exists>st'. parse_lines st (replicate k [NL]) = Inr st' \<and> p_item st' = empty_item
      \<and> items st' = items st \<and> kwargs st' = kwargs st"
proof (induction k arbitrary: st)
  case 0
  then show ?case by simp
next
  case (Suc k)
  let ?st1 = "st\<lparr>lineno := lineno st + 1, header := []\<rparr>"
  from Suc.prems have "p_item ?st1 = empty_item" by simp
  from Suc.IH [OF this] obtain st' where "parse_lines ?st1 (replicate k [NL]) = Inr st'"
    "p_item st' = empty_item" "items st' = items ?st1" "kwargs st' = kwargs ?st1"
    by blast
  with parse_line_blank_empty [OF Suc.prems] show ?case by simp
qed

lemma parse_line_flush:
  "p_item st = \<lparr>i_name = Some n, i_algos = Some a, i_digests = Some d\<rparr> \<Longrightarrow>
   parse_line st [NL] = Inr (st\<lparr>lineno := lineno st + 1,
       items := items st @ [\<lparr>name = n, algos = a, digests = d\<rparr>], p_item := empty_item, header := []\<rparr>)"
  by (simp add: parse_line_def rstrip_NL Let_def item_nonempty_def Section_of_item_def)

lemma parse_version_lines:
  "\<exists>st. parse_lines init_pstate [Manifest_header @ [NL], [NL]] = Inr st \<and> p_item st = empty_item
      \<and> items st = [] \<and> kwargs st = None"
proof -
  have "parse_lines init_pstate [Manifest_header @ [NL], [NL]]
      = Inr (init_pstate\<lparr>lineno := 2\<rparr>)"
    by code_simp
  then show ?thesis by (simp add: init_pstate_def)
qed

lemma isspace_NL: "isspace NL"
  by (simp add: isspace_def NL_def)

lemma rstrip_snoc_NL: "rstrip (s @ [NL]) = rstrip s"
  by (simp add: rstrip_def isspace_NL)

lemma rstrip_id: "s = [] \<or> \<not> isspace (last s) \<Longrightarrow> rstrip s = s"
proof (cases s rule: rev_cases)
  case Nil
  then show ?thesis by (simp add: rstrip_def)
next
  case (snoc xs x)
  assume "s = [] \<or> \<not> isspace (last s)"
  with snoc show ?thesis by (simp add: rstrip_def)
qed

lemma dropWhile_isspace_id: "e = [] \<or> \<not> isspace (hd e) \<Longrightarrow> dropWhile isspace e = e"
  by (cases e) auto

lemma takeWhile_no_NL: "NL \<notin> set n \<Longrightarrow> takeWhile (\<lambda>c. c \<noteq> NL) n = n"
  by (induction n) auto

lemmas hm_eval = headers_re_match_def header_alternatives_def lower_char_def ascii_uppercase_def
  ascii_lowercase_def sep_value_def isspace_def

lemma ph_name:
  "parse_header st ''name'' v =
     (if directory_re_search v then Inr st else Inr (st\<lparr>p_item := (p_item st)\<lparr>i_name := Some v\<rparr>\<rparr>))"
  by (simp add: parse_header_def last_n_def)

lemma ph_algos:
  "parse_header st ''digest-algorithms'' v =
     Inr (st\<lparr>p_item := (p_item st)\<lparr>i_algos := Some (re_split_ws (lower v))\<rparr>\<rparr>)"
  by (simp add: parse_header_def last_n_def)

lemma ph_md5:
  "parse_header st ''md5-digest'' (b64encode v) =
     Inr (st\<lparr>p_item := (p_item st)\<lparr>i_digests := Some (AList.update ''md5'' v
            (case i_digests (p_item st) of None \<Rightarrow> [] | Some k \<Rightarrow> k))\<rparr>\<rparr>)"
  by (simp add: parse_header_def last_n_def but_last_n_def b64decode_b64encode)

lemma ph_sha1:
  "parse_header st ''sha1-digest'' (b64encode v) =
     Inr (st\<lparr>p_item := (p_item st)\<lparr>i_digests := Some (AList.update ''sha1'' v
            (case i_digests (p_item st) of None \<Rightarrow> [] | Some k \<Rightarrow> k))\<rparr>\<rparr>)"
  by (simp add: parse_header_def last_n_def but_last_n_def b64decode_b64encode)

lemma hm_Name:
  assumes "e = [] \<or> \<not> isspace (hd e)" "NL \<notin> set e"
  shows "headers_re_match (''Name:'' @ e) = Some (''Name'', e)"
    and "headers_re_match (''Name: '' @ e) = Some (''Name'', e)"
  using dropWhile_isspace_id [OF assms(1)] takeWhile_no_NL [OF assms(2)]
  by (simp_all add: hm_eval)

lemma hm_MD5:
  assumes "e = [] \<or> \<not> isspace (hd e)" "NL \<notin> set e"
  shows "headers_re_match (''MD5-Digest:'' @ e) = Some (''MD5-Digest'', e)"
    and "headers_re_match (''MD5-Digest: '' @ e) = Some (''MD5-Digest'', e)"
  using dropWhile_isspace_id [OF assms(1)] takeWhile_no_NL [OF assms(2)]
  by (simp_all add: hm_eval)

lemma hm_SHA1:
  assumes "e = [] \<or> \<not> isspace (hd e)" "NL \<notin> set e"
  shows "headers_re_match (''SHA1-Digest:'' @ e) = Some (''SHA1-Digest'', e)"
    and "headers_re_match (''SHA1-Digest: '' @ e) = Some (''SHA1-Digest'', e)"
  using dropWhile_isspace_id [OF assms(1)] takeWhile_no_NL [OF assms(2)]
  by (simp_all add: hm_eval)

lemma wrap_name_short: "length nm \<le> 72 \<Longrightarrow> wrap_name nm = nm"
  by (subst wrap_name.simps) (simp add: wrap_name.simps [of "[]"])

lemma wrap_name_once:
  "72 < length nm \<Longrightarrow> length nm \<le> 144 \<Longrightarrow>
   wrap_name nm = take 72 nm @ [NL, CHR '' ''] @ drop 72 nm"
  by (subst wrap_name.simps) (auto simp: wrap_name_short)

lemma rstrip_snoc_space: "isspace c \<Longrightarrow> rstrip (s @ [c]) = rstrip s"
  by (simp add: rstrip_def)

lemma rstrip_kv:
  assumes "K \<noteq> []" "\<not> isspace (last K)" "e = [] \<or> \<not> isspace (last e)"
  shows "rstrip (K @ CHR '' '' # e @ [NL]) = (if e = [] then K else K @ CHR '' '' # e)"
proof (cases "e = []")
  case True
  have "rstrip (K @ [CHR '' '']) = K"
    using assms(1,2) by (simp add: rstrip_snoc_space isspace_def rstrip_id)
  with True show ?thesis
    using rstrip_snoc_NL [of "K @ [CHR '' '']"] by simp
next
  case False
  with assms(3) have "rstrip (K @ CHR '' '' # e) = K @ CHR '' '' # e"
    by (intro rstrip_id) simp
  with False show ?thesis
    using rstrip_snoc_NL [of "K @ CHR '' '' # e"] by simp
qed

lemma continuation_None: "line \<noteq> [] \<Longrightarrow> hd line \<noteq> CHR '' '' \<Longrightarrow> continuation_re_match line = None"
  by (cases line) (simp_all add: continuation_re_match_def)

lemma parse_line_header:
  assumes "rstrip raw = line" "length line \<le> 72" "line \<noteq> []" "continuation_re_match line = None"
    "headers_re_match line = Some (g, v)"
  shows "parse_line st raw = parse_header (st\<lparr>lineno := lineno st + 1, header := lower g\<rparr>) (lower g) v"
  using assms by (simp add: parse_line_def Let_def)

lemma lower_Name: "lower ''Name'' = ''name''"
  by (simp add: lower_def lower_char_def ascii_uppercase_def ascii_lowercase_def)

lemma parse_line_Name:
  assumes "e = [] \<or> (\<not> isspace (hd e) \<and> \<not> isspace (last e) \<and> \<not> is_sep (last e))" "NL \<notin> set e"
    "length e \<le> 66"
  shows "parse_line st (''Name: '' @ e @ [NL]) =
     Inr (st\<lparr>lineno := lineno st + 1, header := ''name'', p_item := (p_item st)\<lparr>i_name := Some e\<rparr>\<rparr>)"
proof -
  define line where "line = (if e = [] then ''Name:'' else ''Name: '' @ e)"
  have r: "rstrip (''Name: '' @ e @ [NL]) = line"
    using rstrip_kv [of "''Name:''" e] assms(1) by (auto simp: line_def isspace_def)
  have l: "length line \<le> 72" using assms(3) by (simp add: line_def)
  have ne: "line \<noteq> []" by (simp add: line_def)
  have c: "continuation_re_match line = None"
    by (rule continuation_None) (simp_all add: line_def)
  from assms(1) have h: "e = [] \<or> \<not> isspace (hd e)" by blast
  have m: "headers_re_match line = Some (''Name'', e)"
    using hm_Name [OF h assms(2)] by (auto simp: line_def)
  have "e \<noteq> [] \<Longrightarrow> last e \<noteq> NL"
  proof
    assume "e \<noteq> []" and "last e = NL"
    from last_in_set [OF this(1)] this(2) assms(2) show False by simp
  qed
  with assms(1) have d: "\<not> directory_re_search e"
    by (auto simp: directory_re_search_def)
  show ?thesis
    unfolding parse_line_header [OF r l ne c m] lower_Name ph_name using d by simp
qed


lemma parse_line_continued_Name:
  assumes "r \<noteq> []" "\<not> isspace (last r)" "NL \<notin> set r" "length r \<le> 71"
    "header st = ''name''" "i_name (p_item st) = Some e"
  shows "parse_line st (CHR '' '' # r @ [NL]) =
     Inr (st\<lparr>lineno := lineno st + 1, p_item := (p_item st)\<lparr>i_name := Some (e @ r)\<rparr>\<rparr>)"
proof -
  have "rstrip ((CHR '' '' # r) @ [NL]) = CHR '' '' # r"
    unfolding rstrip_snoc_NL using assms(1,2) by (intro rstrip_id) simp
  then have r: "rstrip (CHR '' '' # r @ [NL]) = CHR '' '' # r" by simp
  have c: "continuation_re_match (CHR '' '' # r) = Some r"
    using takeWhile_no_NL [OF assms(3)] by (simp add: continuation_re_match_def)
  show ?thesis
    using assms(4,5,6) by (simp add: parse_line_def Let_def r c item_iadd_def)
qed

lemma parse_line_Name_first:
  assumes "\<not> isspace (hd e)" "\<not> isspace (last e)" "\<not> is_sep (last e)" "NL \<notin> set e"
    "length e = 66"
  shows "parse_line st (''Name: '' @ e @ [NL]) =
     Inr (st\<lparr>lineno := lineno st + 1, header := ''name'', p_item := (p_item st)\<lparr>i_name := Some e\<rparr>\<rparr>)"
  using assms by (intro parse_line_Name) simp_all

lemma roundtrip_name_lines:
  assumes "roundtrip_name n"
  shows "\<exists>ls. (\<forall>T. readlines (wrap_name (''Name: '' @ n) @ [NL] @ T) = ls @ readlines T)
     \<and> (\<forall>st. \<exists>st'. parse_lines st ls = Inr st' \<and> p_item st' = (p_item st)\<lparr>i_name := Some n\<rparr>
            \<and> items st' = items st \<and> kwargs st' = kwargs st)"
proof (cases "length n \<le> 66")
  case True
  from assms have nl: "NL \<notin> set n"
    and e: "n = [] \<or> (\<not> isspace (hd n) \<and> \<not> isspace (last n) \<and> \<not> is_sep (last n))"
    by (simp_all add: roundtrip_name_def)
  from True have w: "wrap_name (''Name: '' @ n) = ''Name: '' @ n"
    by (intro wrap_name_short) simp
  have nl': "NL \<notin> set (''Name: '' @ n)" using nl by (simp add: NL_def)
  have rl: "readlines (wrap_name (''Name: '' @ n) @ [NL] @ T) = [''Name: '' @ n @ [NL]] @ readlines T" for T
    unfolding w using readlines_line [OF nl', of T] by simp
  have pl: "\<exists>st'. parse_lines st [''Name: '' @ n @ [NL]] = Inr st' \<and> p_item st' = (p_item st)\<lparr>i_name := Some n\<rparr>
            \<and> items st' = items st \<and> kwargs st' = kwargs st" for st
    using parse_line_Name [OF e nl True, of st] by simp
  from rl pl show ?thesis by blast
next
  case False
  from assms False have nl: "NL \<notin> set n"
    and h: "\<not> isspace (hd n)" and l: "\<not> isspace (last n)"
    and len: "length n \<le> 137" and b: "\<not> isspace (n ! 65)" "\<not> is_sep (n ! 65)"
    by (auto simp: roundtrip_name_def)
  define e where "e = take 66 n"
  define r where "r = drop 66 n"
  from False have le: "length e = 66" by (simp add: e_def)
  from False have rne: "r \<noteq> []" by (simp add: r_def)
  have n: "n = e @ r" by (simp add: e_def r_def)
  from le have "e \<noteq> []" by auto
  then have "last e = e ! 65" using le by (simp add: last_conv_nth)
  then have "last e = n ! 65" by (simp add: e_def)
  with b have be: "\<not> isspace (last e)" "\<not> is_sep (last e)" by simp_all
  from False have "hd e = hd n" by (simp add: e_def)
  with h have he: "\<not> isspace (hd e)" by simp
  from nl have nle: "NL \<notin> set e" and nlr: "NL \<notin> set r"
    by (auto simp: e_def r_def dest: in_set_takeD in_set_dropD)
  from rne l have lr: "\<not> isspace (last r)" by (simp add: r_def)
  from len have lenr: "length r \<le> 71" by (simp add: r_def)
  have w: "wrap_name (''Name: '' @ n) = (''Name: '' @ e) @ [NL, CHR '' ''] @ r"
    using False len wrap_name_once [of "''Name: '' @ n"] by (simp add: e_def r_def)
  have nl1: "NL \<notin> set (''Name: '' @ e)" using nle by (simp add: NL_def)
  have nl2: "NL \<notin> set (CHR '' '' # r)" using nlr by (simp add: NL_def)
  have rl: "readlines (wrap_name (''Name: '' @ n) @ [NL] @ T)
      = [''Name: '' @ e @ [NL], CHR '' '' # r @ [NL]] @ readlines T" for T
    unfolding w using readlines_line [OF nl1, of "CHR '' '' # r @ NL # T"] readlines_line [OF nl2, of T]
    by simp
  have pl: "\<exists>st'. parse_lines st [''Name: '' @ e @ [NL], CHR '' '' # r @ [NL]] = Inr st'
            \<and> p_item st' = (p_item st)\<lparr>i_name := Some n\<rparr>
            \<and> items st' = items st \<and> kwargs st' = kwargs st" for st
  proof -
    let ?st1 = "st\<lparr>lineno := lineno st + 1, header := ''name'', p_item := (p_item st)\<lparr>i_name := Some e\<rparr>\<rparr>"
    have 1: "parse_line st (''Name: '' @ e @ [NL]) = Inr ?st1"
      by (rule parse_line_Name_first [OF he be nle le])
    have 2: "parse_line ?st1 (CHR '' '' # r @ [NL]) =
        Inr (?st1\<lparr>lineno := lineno ?st1 + 1, p_item := (p_item ?st1)\<lparr>i_name := Some (e @ r)\<rparr>\<rparr>)"
      by (rule parse_line_continued_Name [OF rne lr nlr lenr]) simp_all
    from 1 2 show ?thesis by (simp add: n)
  qed
  from rl pl show ?thesis by blast
qed

lemma algos_line_facts:
  "rstrip (''Digest-Algorithms: MD5 SHA1'' @ [NL]) = ''Digest-Algorithms: MD5 SHA1''"
  "rstrip (''Digest-Algorithms: MD5'' @ [NL]) = ''Digest-Algorithms: MD5''"
  "rstrip (''Digest-Algorithms: SHA1'' @ [NL]) = ''Digest-Algorithms: SHA1''"
  "headers_re_match ''Digest-Algorithms: MD5 SHA1'' = Some (''Digest-Algorithms'', ''MD5 SHA1'')"
  "headers_re_match ''Digest-Algorithms: MD5'' = Some (''Digest-Algorithms'', ''MD5'')"
  "headers_re_match ''Digest-Algorithms: SHA1'' = Some (''Digest-Algorithms'', ''SHA1'')"
  "lower ''Digest-Algorithms'' = ''digest-algorithms''"
  "re_split_ws (lower ''MD5 SHA1'') = [''md5'', ''sha1'']"
  "re_split_ws (lower ''MD5'') = [''md5'']"
  "re_split_ws (lower ''SHA1'') = [''sha1'']"
  "lower ''MD5-Digest'' = ''md5-digest''"
  "lower ''SHA1-Digest'' = ''sha1-digest''"
  by code_simp+

lemma parse_line_algos:
  "parse_line st (''Digest-Algorithms: MD5 SHA1'' @ [NL]) =
     Inr (st\<lparr>lineno := lineno st + 1, header := ''digest-algorithms'',
            p_item := (p_item st)\<lparr>i_algos := Some [''md5'', ''sha1'']\<rparr>\<rparr>)"
  "parse_line st (''Digest-Algorithms: MD5'' @ [NL]) =
     Inr (st\<lparr>lineno := lineno st + 1, header := ''digest-algorithms'',
            p_item := (p_item st)\<lparr>i_algos := Some [''md5'']\<rparr>\<rparr>)"
  "parse_line st (''Digest-Algorithms: SHA1'' @ [NL]) =
     Inr (st\<lparr>lineno := lineno st + 1, header := ''digest-algorithms'',
            p_item := (p_item st)\<lparr>i_algos := Some [''sha1'']\<rparr>\<rparr>)"
proof -
  show "parse_line st (''Digest-Algorithms: MD5 SHA1'' @ [NL]) =
     Inr (st\<lparr>lineno := lineno st + 1, header := ''digest-algorithms'',
            p_item := (p_item st)\<lparr>i_algos := Some [''md5'', ''sha1'']\<rparr>\<rparr>)"
    by (subst parse_line_header [OF algos_line_facts(1) _ _ _ algos_line_facts(4)])
       (simp_all add: continuation_None algos_line_facts ph_algos)
  show "parse_line st (''Digest-Algorithms: MD5'' @ [NL]) =
     Inr (st\<lparr>lineno := lineno st + 1, header := ''digest-algorithms'',
            p_item := (p_item st)\<lparr>i_algos := Some [''md5'']\<rparr>\<rparr>)"
    by (subst parse_line_header [OF algos_line_facts(2) _ _ _ algos_line_facts(5)])
       (simp_all add: continuation_None algos_line_facts ph_algos)
  show "parse_line st (''Digest-Algorithms: SHA1'' @ [NL]) =
     Inr (st\<lparr>lineno := lineno st + 1, header := ''digest-algorithms'',
            p_item := (p_item st)\<lparr>i_algos := Some [''sha1'']\<rparr>\<rparr>)"
    by (subst parse_line_header [OF algos_line_facts(3) _ _ _ algos_line_facts(6)])
       (simp_all add: continuation_None algos_line_facts ph_algos)
qed

lemma b64encode_clean:
  "b64encode v = [] \<or> (\<not> isspace (hd (b64encode v)) \<and> \<not> isspace (last (b64encode v)))"
  "NL \<notin> set (b64encode v)"
proof -
  show "b64encode v = [] \<or> (\<not> isspace (hd (b64encode v)) \<and> \<not> isspace (last (b64encode v)))"
    using b64encode_chars [of "hd (b64encode v)" v] b64encode_chars [of "last (b64encode v)" v]
    by (cases "b64encode v = []") simp_all
  show "NL \<notin> set (b64encode v)"
    using b64encode_chars [of NL v] isspace_NL by blast
qed

lemma b64encode_short: "length v \<le> 42 \<Longrightarrow> length (b64encode v) \<le> 56"
proof -
  assume "length v \<le> 42"
  then have "(length v + 2) div 3 \<le> 14" by simp
  then show ?thesis by (simp add: b64encode_length)
qed

lemma b64encode_short_md5: "length v \<le> 45 \<Longrightarrow> length (b64encode v) \<le> 60"
proof -
  assume "length v \<le> 45"
  then have "(length v + 2) div 3 \<le> 15" by simp
  then show ?thesis by (simp add: b64encode_length)
qed

lemma parse_line_MD5:
  assumes "length v \<le> 45"
  shows "parse_line st (''MD5-Digest: '' @ b64encode v @ [NL]) =
     Inr (st\<lparr>lineno := lineno st + 1, header := ''md5-digest'',
            p_item := (p_item st)\<lparr>i_digests := Some (AList.update ''md5'' v
               (case i_digests (p_item st) of None \<Rightarrow> [] | Some k \<Rightarrow> k))\<rparr>\<rparr>)"
proof -
  define e where "e = b64encode v"
  define line where "line = (if e = [] then ''MD5-Digest:'' else ''MD5-Digest: '' @ e)"
  note cl = b64encode_clean [of v, folded e_def]
  have r: "rstrip (''MD5-Digest: '' @ e @ [NL]) = line"
    using rstrip_kv [of "''MD5-Digest:''" e] cl(1) by (auto simp: line_def isspace_def)
  have l: "length line \<le> 72" using b64encode_short_md5 [OF assms] by (simp add: line_def e_def)
  have ne: "line \<noteq> []" by (simp add: line_def)
  have c: "continuation_re_match line = None"
    by (rule continuation_None) (simp_all add: line_def)
  from cl(1) have h: "e = [] \<or> \<not> isspace (hd e)" by blast
  have m: "headers_re_match line = Some (''MD5-Digest'', e)"
    using hm_MD5 [OF h cl(2)] by (auto simp: line_def)
  show ?thesis
    unfolding e_def [symmetric] parse_line_header [OF r l ne c m] algos_line_facts
    by (simp add: e_def ph_md5)
qed

lemma parse_line_SHA1:
  assumes "length v \<le> 42"
  shows "parse_line st (''SHA1-Digest: '' @ b64encode v @ [NL]) =
     Inr (st\<lparr>lineno := lineno st + 1, header := ''sha1-digest'',
            p_item := (p_item st)\<lparr>i_digests := Some (AList.update ''sha1'' v
               (case i_digests (p_item st) of None \<Rightarrow> [] | Some k \<Rightarrow> k))\<rparr>\<rparr>)"
proof -
  define e where "e = b64encode v"
  define line where "line = (if e = [] then ''SHA1-Digest:'' else ''SHA1-Digest: '' @ e)"
  note cl = b64encode_clean [of v, folded e_def]
  have r: "rstrip (''SHA1-Digest: '' @ e @ [NL]) = line"
    using rstrip_kv [of "''SHA1-Digest:''" e] cl(1) by (auto simp: line_def isspace_def)
  have l: "length line \<le> 72" using b64encode_short [OF assms] by (simp add: line_def e_def)
  have ne: "line \<noteq> []" by (simp add: line_def)
  have c: "continuation_re_match line = None"
    by (rule continuation_None) (simp_all add: line_def)
  from cl(1) have h: "e = [] \<or> \<not> isspace (hd e)" by blast
  have m: "headers_re_match line = Some (''SHA1-Digest'', e)"
    using hm_SHA1 [OF h cl(2)] by (auto simp: line_def)
  show ?thesis
    unfolding e_def [symmetric] parse_line_header [OF r l ne c m] algos_line_facts
    by (simp add: e_def ph_sha1)
qed

lemma digests_shapes:
  assumes "distinct (map fst d)" "d \<noteq> []" "set (map fst d) \<subseteq> {''md5'', ''sha1''}"
  shows "(\<exists>v. d = [(''md5'', v)]) \<or> (\<exists>v. d = [(''sha1'', v)])
     \<or> (\<exists>v1 v2. d = [(''md5'', v1), (''sha1'', v2)]) \<or> (\<exists>v1 v2. d = [(''sha1'', v2), (''md5'', v1)])"
proof (cases d)
  case Nil
  with assms(2) show ?thesis by simp
next
  case (Cons kv1 d1)
  obtain k1 v1 where kv1: "kv1 = (k1, v1)" by (cases kv1)
  from assms(3) Cons kv1 have k1: "k1 = ''md5'' \<or> k1 = ''sha1''" by simp
  show ?thesis
  proof (cases d1)
    case Nil
    with Cons kv1 k1 show ?thesis by auto
  next
    case (Cons kv2 d2)
    obtain k2 v2 where kv2: "kv2 = (k2, v2)" by (cases kv2)
    from assms(1,3) \<open>d = kv1 # d1\<close> Cons kv1 kv2
    have k2: "k2 = ''md5'' \<or> k2 = ''sha1''" and ne: "k1 \<noteq> k2" by simp_all
    have "d2 = []"
    proof (cases d2)
      case Nil
      then show ?thesis .
    next
      case (Cons kv3 d3)
      obtain k3 v3 where kv3: "kv3 = (k3, v3)" by (cases kv3)
      from assms(1,3) \<open>d = kv1 # d1\<close> \<open>d1 = kv2 # d2\<close> Cons kv1 kv2 kv3
      have "k3 = ''md5'' \<or> k3 = ''sha1''" and "k1 \<noteq> k3" and "k2 \<noteq> k3" by auto
      with k1 k2 ne show ?thesis by auto
    qed
    with \<open>d = kv1 # d1\<close> Cons kv1 kv2 k1 k2 ne show ?thesis by auto
  qed
qed

lemmas str_eval = Section_str_def upper_def upper_char_def ascii_uppercase_def ascii_lowercase_def

lemma Section_str_md5:
  "Section_str \<lparr>name = n, algos = a, digests = [(''md5'', v)]\<rparr> =
     wrap_name (''Name: '' @ n) @ [NL] @ (''Digest-Algorithms: MD5'' @ [NL])
       @ (''MD5-Digest: '' @ b64encode v @ [NL])"
  by (simp add: str_eval)

lemma Section_str_sha1:
  "Section_str \<lparr>name = n, algos = a, digests = [(''sha1'', v)]\<rparr> =
     wrap_name (''Name: '' @ n) @ [NL] @ (''Digest-Algorithms: SHA1'' @ [NL])
       @ (''SHA1-Digest: '' @ b64encode v @ [NL])"
  by (simp add: str_eval)

lemma Section_str_both:
  "Section_str \<lparr>name = n, algos = a, digests = [(''md5'', v1), (''sha1'', v2)]\<rparr> =
     wrap_name (''Name: '' @ n) @ [NL] @ (''Digest-Algorithms: MD5 SHA1'' @ [NL])
       @ (''MD5-Digest: '' @ b64encode v1 @ [NL]) @ (''SHA1-Digest: '' @ b64encode v2 @ [NL])"
  "Section_str \<lparr>name = n, algos = a, digests = [(''sha1'', v2), (''md5'', v1)]\<rparr> =
     wrap_name (''Name: '' @ n) @ [NL] @ (''Digest-Algorithms: MD5 SHA1'' @ [NL])
       @ (''MD5-Digest: '' @ b64encode v1 @ [NL]) @ (''SHA1-Digest: '' @ b64encode v2 @ [NL])"
  by (simp_all add: str_eval)

lemma digest_lines_md5:
  assumes "p_item st = empty_item\<lparr>i_name := Some n\<rparr>" "length v \<le> 45"
  shows "\<exists>st'. parse_lines st [''Digest-Algorithms: MD5'' @ [NL], ''MD5-Digest: '' @ b64encode v @ [NL], [NL]] = Inr st'
     \<and> p_item st' = empty_item
     \<and> items st' = items st @ [\<lparr>name = n, algos = [''md5''], digests = [(''md5'', v)]\<rparr>]
     \<and> kwargs st' = kwargs st"
  using assms
  by (simp add: parse_line_algos parse_line_MD5 parse_line_flush empty_item_def del: append.simps)

lemma digest_lines_sha1:
  assumes "p_item st = empty_item\<lparr>i_name := Some n\<rparr>" "length v \<le> 42"
  shows "\<exists>st'. parse_lines st [''Digest-Algorithms: SHA1'' @ [NL], ''SHA1-Digest: '' @ b64encode v @ [NL], [NL]] = Inr st'
     \<and> p_item st' = empty_item
     \<and> items st' = items st @ [\<lparr>name = n, algos = [''sha1''], digests = [(''sha1'', v)]\<rparr>]
     \<and> kwargs st' = kwargs st"
  using assms
  by (simp add: parse_line_algos parse_line_SHA1 parse_line_flush empty_item_def del: append.simps)

lemma digest_lines_both:
  assumes "p_item st = empty_item\<lparr>i_name := Some n\<rparr>" "length v1 \<le> 45" "length v2 \<le> 42"
  shows "\<exists>st'. parse_lines st [''Digest-Algorithms: MD5 SHA1'' @ [NL], ''MD5-Digest: '' @ b64encode v1 @ [NL],
        ''SHA1-Digest: '' @ b64encode v2 @ [NL], [NL]] = Inr st'
     \<and> p_item st' = empty_item
     \<and> items st' = items st @ [\<lparr>name = n, algos = [''md5'', ''sha1''], digests = [(''md5'', v1), (''sha1'', v2)]\<rparr>]
     \<and> kwargs st' = kwargs st"
  using assms
  by (simp add: parse_line_algos parse_line_MD5 parse_line_SHA1 parse_line_flush empty_item_def del: append.simps)

lemma readlines_two:
  assumes "NL \<notin> set l1" "NL \<notin> set l2"
  shows "readlines ((l1 @ [NL]) @ (l2 @ [NL]) @ T) = [l1 @ [NL], l2 @ [NL]] @ readlines T"
  using readlines_line [OF assms(1), of "l2 @ NL # T"] readlines_line [OF assms(2), of T] by simp

lemma readlines_three:
  assumes "NL \<notin> set l1" "NL \<notin> set l2" "NL \<notin> set l3"
  shows "readlines ((l1 @ [NL]) @ (l2 @ [NL]) @ (l3 @ [NL]) @ T) = [l1 @ [NL], l2 @ [NL], l3 @ [NL]] @ readlines T"
  using readlines_line [OF assms(1), of "l2 @ NL # l3 @ NL # T"] readlines_two [OF assms(2,3), of T] by simp

lemma digest_line_no_NL:
  "NL \<notin> set (''MD5-Digest: '' @ b64encode v)" "NL \<notin> set (''SHA1-Digest: '' @ b64encode v)"
  "NL \<notin> set ''Digest-Algorithms: MD5''" "NL \<notin> set ''Digest-Algorithms: SHA1''"
  "NL \<notin> set ''Digest-Algorithms: MD5 SHA1''"
  using b64encode_clean(2) [of v] by (simp_all add: NL_def)

lemma section_lines_parse:
  assumes nm: "roundtrip_name (name s)"
    and str: "Section_str s = wrap_name (''Name: '' @ name s) @ [NL] @ dtext"
    and rl: "\<And>T. readlines (dtext @ T) = dls @ readlines T"
    and pl: "\<And>st. p_item st = empty_item\<lparr>i_name := Some (name s)\<rparr> \<Longrightarrow>
        \<exists>st'. parse_lines st (dls @ [[NL]]) = Inr st' \<and> p_item st' = empty_item
          \<and> items st' = items st @ [s'] \<and> kwargs st' = kwargs st"
    and same: "name s' = name s" "set (algos s') = set (algos s)" "map_of (digests s') = map_of (digests s)"
  shows "\<exists>ls s'. (\<forall>T. readlines (Section_str s @ T) = ls @ readlines T)
     \<and> (\<forall>st. p_item st = empty_item \<longrightarrow>
           (\<exists>st'. parse_lines st (ls @ [[NL]]) = Inr st' \<and> p_item st' = empty_item
              \<and> items st' = items st @ [s'] \<and> kwargs st' = kwargs st))
     \<and> name s' = name s \<and> set (algos s') = set (algos s) \<and> map_of (digests s') = map_of (digests s)"
proof -
  from roundtrip_name_lines [OF nm] obtain nls where
    nrl: "\<And>T. readlines (wrap_name (''Name: '' @ name s) @ [NL] @ T) = nls @ readlines T"
    and npl: "\<And>st. \<exists>st'. parse_lines st nls = Inr st' \<and> p_item st' = (p_item st)\<lparr>i_name := Some (name s)\<rparr>
            \<and> items st' = items st \<and> kwargs st' = kwargs st"
    by blast
  have 1: "\<forall>T. readlines (Section_str s @ T) = (nls @ dls) @ readlines T"
    unfolding str using nrl [of "dtext @ T" for T] rl by simp
  have 2: "\<forall>st. p_item st = empty_item \<longrightarrow>
       (\<exists>st'. parse_lines st ((nls @ dls) @ [[NL]]) = Inr st' \<and> p_item st' = empty_item
              \<and> items st' = items st @ [s'] \<and> kwargs st' = kwargs st)"
  proof (intro allI impI)
    fix st :: pstate
    assume e: "p_item st = empty_item"
    from npl [of st] e obtain st1 where a: "parse_lines st nls = Inr st1"
      and b: "p_item st1 = empty_item\<lparr>i_name := Some (name s)\<rparr>"
      and c: "items st1 = items st" "kwargs st1 = kwargs st"
      by auto
    from pl [OF b] obtain st' where "parse_lines st1 (dls @ [[NL]]) = Inr st'" "p_item st' = empty_item"
      "items st' = items st1 @ [s']" "kwargs st' = kwargs st1"
      by blast
    with a c show "\<exists>st'. parse_lines st ((nls @ dls) @ [[NL]]) = Inr st' \<and> p_item st' = empty_item
              \<and> items st' = items st @ [s'] \<and> kwargs st' = kwargs st"
      by (simp add: parse_lines_append)
  qed
  from 1 2 same show ?thesis by blast
qed

lemma roundtrip_section_lines:
  assumes "roundtrip_section s"
  shows "\<exists>ls s'. (\<forall>T. readlines (Section_str s @ T) = ls @ readlines T)
     \<and> (\<forall>st. p_item st = empty_item \<longrightarrow>
           (\<exists>st'. parse_lines st (ls @ [[NL]]) = Inr st' \<and> p_item st' = empty_item
              \<and> items st' = items st @ [s'] \<and> kwargs st' = kwargs st))
     \<and> name s' = name s \<and> set (algos s') = set (algos s) \<and> map_of (digests s') = map_of (digests s)"
proof -
  obtain n a d where s: "s = \<lparr>name = n, algos = a, digests = d\<rparr>" by (cases s)
  from assms s have nm: "roundtrip_name (name s)" and di: "distinct (map fst d)" and ne: "d \<noteq> []"
    and ks: "set (map fst d) \<subseteq> {''md5'', ''sha1''}" and al: "set a = set (map fst d)"
    and len: "list_all (\<lambda>kv. length (snd kv) \<le> (if fst kv = ''md5'' then 45 else 42)) d"
    by (simp_all add: roundtrip_section_def)
  have n: "name s = n" by (simp add: s)
  from digests_shapes [OF di ne ks]
  consider (md5) v where "d = [(''md5'', v)]" | (sha1) v where "d = [(''sha1'', v)]"
    | (both) v1 v2 where "d = [(''md5'', v1), (''sha1'', v2)]"
    | (both') v1 v2 where "d = [(''sha1'', v2), (''md5'', v1)]"
    by blast
  then show ?thesis
  proof cases
    case md5
    with len have lv: "length v \<le> 45" by simp
    show ?thesis
    proof (rule section_lines_parse [OF nm, where s' = "\<lparr>name = n, algos = [''md5''], digests = [(''md5'', v)]\<rparr>"])
      show "Section_str s = wrap_name (''Name: '' @ name s) @ [NL]
          @ ((''Digest-Algorithms: MD5'' @ [NL]) @ (''MD5-Digest: '' @ b64encode v @ [NL]) @ [])"
        unfolding s md5 Section_str_md5 by simp
      show "readlines (((''Digest-Algorithms: MD5'' @ [NL]) @ (''MD5-Digest: '' @ b64encode v @ [NL]) @ []) @ T)
          = [''Digest-Algorithms: MD5'' @ [NL], ''MD5-Digest: '' @ b64encode v @ [NL]] @ readlines T" for T
        using readlines_two [OF digest_line_no_NL(3) digest_line_no_NL(1) [of v], of T] by simp
      show "\<exists>st'. parse_lines st ([''Digest-Algorithms: MD5'' @ [NL], ''MD5-Digest: '' @ b64encode v @ [NL]] @ [[NL]]) = Inr st'
          \<and> p_item st' = empty_item
          \<and> items st' = items st @ [\<lparr>name = n, algos = [''md5''], digests = [(''md5'', v)]\<rparr>]
          \<and> kwargs st' = kwargs st"
        if "p_item st = empty_item\<lparr>i_name := Some (name s)\<rparr>" for st
        using digest_lines_md5 [OF that [unfolded n] lv] by simp
    qed (use s md5 al in auto)
  next
    case sha1
    with len have lv: "length v \<le> 42" by simp
    show ?thesis
    proof (rule section_lines_parse [OF nm, where s' = "\<lparr>name = n, algos = [''sha1''], digests = [(''sha1'', v)]\<rparr>"])
      show "Section_str s = wrap_name (''Name: '' @ name s) @ [NL]
          @ ((''Digest-Algorithms: SHA1'' @ [NL]) @ (''SHA1-Digest: '' @ b64encode v @ [NL]) @ [])"
        unfolding s sha1 Section_str_sha1 by simp
      show "readlines (((''Digest-Algorithms: SHA1'' @ [NL]) @ (''SHA1-Digest: '' @ b64encode v @ [NL]) @ []) @ T)
          = [''Digest-Algorithms: SHA1'' @ [NL], ''SHA1-Digest: '' @ b64encode v @ [NL]] @ readlines T" for T
        using readlines_two [OF digest_line_no_NL(4) digest_line_no_NL(2) [of v], of T] by simp
      show "\<exists>st'. parse_lines st ([''Digest-Algorithms: SHA1'' @ [NL], ''SHA1-Digest: '' @ b64encode v @ [NL]] @ [[NL]]) = Inr st'
          \<and> p_item st' = empty_item
          \<and> items st' = items st @ [\<lparr>name = n, algos = [''sha1''], digests = [(''sha1'', v)]\<rparr>]
          \<and> kwargs st' = kwargs st"
        if "p_item st = empty_item\<lparr>i_name := Some (name s)\<rparr>" for st
        using digest_lines_sha1 [OF that [unfolded n] lv] by simp
    qed (use s sha1 al in auto)
  next
    case both
    with len have lv: "length v1 \<le> 45" "length v2 \<le> 42" by simp_all
    show ?thesis
    proof (rule section_lines_parse [OF nm, where
          s' = "\<lparr>name = n, algos = [''md5'', ''sha1''], digests = [(''md5'', v1), (''sha1'', v2)]\<rparr>"])
      show "Section_str s = wrap_name (''Name: '' @ name s) @ [NL]
          @ ((''Digest-Algorithms: MD5 SHA1'' @ [NL]) @ (''MD5-Digest: '' @ b64encode v1 @ [NL])
             @ (''SHA1-Digest: '' @ b64encode v2 @ [NL]) @ [])"
        unfolding s both Section_str_both by simp
      show "readlines (((''Digest-Algorithms: MD5 SHA1'' @ [NL]) @ (''MD5-Digest: '' @ b64encode v1 @ [NL])
            @ (''SHA1-Digest: '' @ b64encode v2 @ [NL]) @ []) @ T)
          = [''Digest-Algorithms: MD5 SHA1'' @ [NL], ''MD5-Digest: '' @ b64encode v1 @ [NL],
             ''SHA1-Digest: '' @ b64encode v2 @ [NL]] @ readlines T" for T
        using readlines_three [OF digest_line_no_NL(5) digest_line_no_NL(1) [of v1] digest_line_no_NL(2) [of v2], of T]
        by simp
      show "\<exists>st'. parse_lines st ([''Digest-Algorithms: MD5 SHA1'' @ [NL], ''MD5-Digest: '' @ b64encode v1 @ [NL],
             ''SHA1-Digest: '' @ b64encode v2 @ [NL]] @ [[NL]]) = Inr st'
          \<and> p_item st' = empty_item
          \<and> items st' = items st @ [\<lparr>name = n, algos = [''md5'', ''sha1''], digests = [(''md5'', v1), (''sha1'', v2)]\<rparr>]
          \<and> kwargs st' = kwargs st"
        if "p_item st = empty_item\<lparr>i_name := Some (name s)\<rparr>" for st
        using digest_lines_both [OF that [unfolded n] lv] by simp
    qed (use s both al in auto)
  next
    case both'
    with len have lv: "length v1 \<le> 45" "length v2 \<le> 42" by simp_all
    show ?thesis
    proof (rule section_lines_parse [OF nm, where
          s' = "\<lparr>name = n, algos = [''md5'', ''sha1''], digests = [(''md5'', v1), (''sha1'', v2)]\<rparr>"])
      show "Section_str s = wrap_name (''Name: '' @ name s) @ [NL]
          @ ((''Digest-Algorithms: MD5 SHA1'' @ [NL]) @ (''MD5-Digest: '' @ b64encode v1 @ [NL])
             @ (''SHA1-Digest: '' @ b64encode v2 @ [NL]) @ [])"
        unfolding s both' Section_str_both by simp
      show "readlines (((''Digest-Algorithms: MD5 SHA1'' @ [NL]) @ (''MD5-Digest: '' @ b64encode v1 @ [NL])
            @ (''SHA1-Digest: '' @ b64encode v2 @ [NL]) @ []) @ T)
          = [''Digest-Algorithms: MD5 SHA1'' @ [NL], ''MD5-Digest: '' @ b64encode v1 @ [NL],
             ''SHA1-Digest: '' @ b64encode v2 @ [NL]] @ readlines T" for T
        using readlines_three [OF digest_line_no_NL(5) digest_line_no_NL(1) [of v1] digest_line_no_NL(2) [of v2], of T]
        by simp
      show "\<exists>st'. parse_lines st ([''Digest-Algorithms: MD5 SHA1'' @ [NL], ''MD5-Digest: '' @ b64encode v1 @ [NL],
             ''SHA1-Digest: '' @ b64encode v2 @ [NL]] @ [[NL]]) = Inr st'
          \<and> p_item st' = empty_item
          \<and> items st' = items st @ [\<lparr>name = n, algos = [''md5'', ''sha1''], digests = [(''md5'', v1), (''sha1'', v2)]\<rparr>]
          \<and> kwargs st' = kwargs st"
        if "p_item st = empty_item\<lparr>i_name := Some (name s)\<rparr>" for st
        using digest_lines_both [OF that [unfolded n] lv] by simp
    qed (use s both' al in \<open>auto simp: fun_eq_iff\<close>)
  qed
qed

lemma readlines_blank: "readlines (NL # T) = [NL] # readlines T"
  using readlines_line [of "[]" T] by simp

lemma body_parse:
  "list_all roundtrip_section m \<Longrightarrow> p_item st = empty_item \<Longrightarrow>
   \<exists>st' ss. parse_lines st (readlines (join [NL] (map Section_str m)) @ [[NL], [NL]]) = Inr st'
      \<and> items st' = items st @ ss \<and> kwargs st' = kwargs st
      \<and> map name ss = map name m
      \<and> map (\<lambda>s. set (algos s)) ss = map (\<lambda>s. set (algos s)) m
      \<and> map (\<lambda>s. map_of (digests s)) ss = map (\<lambda>s. map_of (digests s)) m"
proof (induction m arbitrary: st rule: induct_list012)
  case 1
  from parse_lines_blanks [OF "1.prems"(2), of 2] obtain st' where
    "parse_lines st [[NL], [NL]] = Inr st'" "items st' = items st" "kwargs st' = kwargs st"
    by (auto simp: numeral_2_eq_2)
  then show ?case by (simp add: readlines_Nil)
next
  case (2 s)
  from "2.prems"(1) have "roundtrip_section s" by simp
  from roundtrip_section_lines [OF this] obtain ls s' where
    rl: "\<And>T. readlines (Section_str s @ T) = ls @ readlines T"
    and pl: "\<And>st. p_item st = empty_item \<Longrightarrow>
           (\<exists>st'. parse_lines st (ls @ [[NL]]) = Inr st' \<and> p_item st' = empty_item
              \<and> items st' = items st @ [s'] \<and> kwargs st' = kwargs st)"
    and same: "name s' = name s" "set (algos s') = set (algos s)" "map_of (digests s') = map_of (digests s)"
    by blast
  from pl [OF "2.prems"(2)] obtain st1 where st1: "parse_lines st (ls @ [[NL]]) = Inr st1"
    "p_item st1 = empty_item" "items st1 = items st @ [s']" "kwargs st1 = kwargs st"
    by blast
  from parse_lines_blanks [OF st1(2), of 1] obtain st' where st': "parse_lines st1 [[NL]] = Inr st'"
    "items st' = items st1" "kwargs st' = kwargs st1"
    by auto
  have "readlines (join [NL] (map Section_str [s])) @ [[NL], [NL]] = (ls @ [[NL]]) @ [[NL]]"
    using rl [of "[]"] by (simp add: readlines_Nil)
  then have "parse_lines st (readlines (join [NL] (map Section_str [s])) @ [[NL], [NL]]) = Inr st'"
    using st1(1) st'(1) by (simp only: parse_lines_append sum.case)
  with st1 st' same show ?case
    by (intro exI [of _ st'] exI [of _ "[s']"]) simp
next
  case (3 s s2 m)
  from "3.prems"(1) have g: "roundtrip_section s" and rest: "list_all roundtrip_section (s2 # m)"
    by simp_all
  from roundtrip_section_lines [OF g] obtain ls s' where
    rl: "\<And>T. readlines (Section_str s @ T) = ls @ readlines T"
    and pl: "\<And>st. p_item st = empty_item \<Longrightarrow>
           (\<exists>st'. parse_lines st (ls @ [[NL]]) = Inr st' \<and> p_item st' = empty_item
              \<and> items st' = items st @ [s'] \<and> kwargs st' = kwargs st)"
    and same: "name s' = name s" "set (algos s') = set (algos s)" "map_of (digests s') = map_of (digests s)"
    by blast
  from pl [OF "3.prems"(2)] obtain st1 where st1: "parse_lines st (ls @ [[NL]]) = Inr st1"
    "p_item st1 = empty_item" "items st1 = items st @ [s']" "kwargs st1 = kwargs st"
    by blast
  from "3.IH"(2) [OF rest st1(2)] obtain st' ss where
    st': "parse_lines st1 (readlines (join [NL] (map Section_str (s2 # m))) @ [[NL], [NL]]) = Inr st'"
    and it: "items st' = items st1 @ ss" "kwargs st' = kwargs st1"
    and ss: "map name ss = map name (s2 # m)"
      "map (\<lambda>s. set (algos s)) ss = map (\<lambda>s. set (algos s)) (s2 # m)"
      "map (\<lambda>s. map_of (digests s)) ss = map (\<lambda>s. map_of (digests s)) (s2 # m)"
    by blast
  have "readlines (join [NL] (map Section_str (s # s2 # m))) @ [[NL], [NL]]
      = (ls @ [[NL]]) @ (readlines (join [NL] (map Section_str (s2 # m))) @ [[NL], [NL]])"
    using rl [of "NL # join [NL] (map Section_str (s2 # m))"] by (simp add: readlines_blank)
  then have "parse_lines st (readlines (join [NL] (map Section_str (s # s2 # m))) @ [[NL], [NL]]) = Inr st'"
    using st1(1) st' by (simp only: parse_lines_append sum.case)
  with st1 it ss same show ?case
    by (intro exI [of _ st'] exI [of _ "s' # ss"]) simp
qed

section \<open>Output conflicts of \<open>make_signed\<close>\<close>

text \<open>
  Claim C10. \<open>make_signed\<close> raises its output-conflict error (an \<open>IOError\<close>) when no
  destination is configured, that is when neither the argument nor the attribute
  \<open>outpath\<close> is a non-empty string, and when the destination path already exists. In
  both cases the file system it leaves is the one it was given: the error comes before
  any archive is opened for writing, and no file is created at the target path.
\<close>

theorem make_signed_output_conflict:
  "(\<not> truthy (py_or outp (outpath self)) \<longrightarrow>
      make_signed md5 sha1 alloc self sig outp fs = (Inl (IOError ''No output file specified''), fs))
   \<and> (\<forall>p. truthy (py_or outp (outpath self)) \<and> py_or outp (outpath self) = Some p \<and> fs p \<noteq> None \<longrightarrow>
      make_signed md5 sha1 alloc self sig outp fs = (Inl (IOError (''File already exists: '' @ p)), fs))"
  by (simp add: make_signed_def Let_def)

theorem make_signed_output_conflict_witness:
  "\<not> truthy (py_or None (outpath \<lparr>inpath = ''in.xpi'', outpath = None, u_digests = [], omit_sections = False\<rparr>))
   \<and> make_signed (\<lambda>s. s) (\<lambda>s. s) (\<lambda>i. i) \<lparr>inpath = ''in.xpi'', outpath = None, u_digests = [], omit_sections = False\<rparr>
        ''SIG'' None [''in.xpi'' \<mapsto> Archive []] = (Inl (IOError ''No output file specified''), [''in.xpi'' \<mapsto> Archive []])
   \<and> truthy (py_or (Some ''out.xpi'') (outpath \<lparr>inpath = ''in.xpi'', outpath = None, u_digests = [], omit_sections = False\<rparr>))
   \<and> [''in.xpi'' \<mapsto> Archive [], ''out.xpi'' \<mapsto> Data ''old''] ''out.xpi'' \<noteq> None
   \<and> make_signed (\<lambda>s. s) (\<lambda>s. s) (\<lambda>i. i) \<lparr>inpath = ''in.xpi'', outpath = None, u_digests = [], omit_sections = False\<rparr>
        ''SIG'' (Some ''out.xpi'') [''in.xpi'' \<mapsto> Archive [], ''out.xpi'' \<mapsto> Data ''old'']
      = (Inl (IOError ''File already exists: out.xpi''), [''in.xpi'' \<mapsto> Archive [], ''out.xpi'' \<mapsto> Data ''old''])"
  using make_signed_output_conflict [of None "\<lparr>inpath = ''in.xpi'', outpath = None, u_digests = [], omit_sections = False\<rparr>"
      "\<lambda>s. s" "\<lambda>s. s" "\<lambda>i. i" "''SIG''" "[''in.xpi'' \<mapsto> Archive []]"]
    make_signed_output_conflict [of "Some ''out.xpi''" "\<lparr>inpath = ''in.xpi'', outpath = None, u_digests = [], omit_sections = False\<rparr>"
      "\<lambda>s. s" "\<lambda>s. s" "\<lambda>i. i" "''SIG''" "[''in.xpi'' \<mapsto> Archive [], ''out.xpi'' \<mapsto> Data ''old'']"]
  by (simp add: truthy_def py_or_def)

section \<open>The digest chain of the signature\<close>

text \<open>
  Claim C2. For every \<open>JarExtractor\<close>, the \<open>Signature\<close> returned by \<open>signatures\<close> has as
  \<open>digest_manifests\<close> the dict \<open>_digest\<close> returns for the serialized text of the
  extractor's \<open>Manifest\<close>, which maps \<open>md5\<close> and \<open>sha1\<close> to the MD5 and the SHA-1 digest of
  that text; so its entry \<open>sha1\<close> is SHA-1 of \<open>str(manifest)\<close>. Its sections are, in order,
  those of the manifest: each has the name of the manifest section and, as digests, the
  MD5 and SHA-1 digests of the serialized text of the manifest section (not of the
  archive entry's content).
\<close>

theorem signatures_digest_chain:
  "digest_manifests (signatures md5 sha1 self) = Some (digest md5 sha1 (Manifest_str (manifest self)))
   \<and> map_of (digest md5 sha1 (Manifest_str (manifest self)))
       = [''md5'' \<mapsto> md5 (Manifest_str (manifest self)), ''sha1'' \<mapsto> sha1 (Manifest_str (manifest self))]
   \<and> map_of (digest md5 sha1 (Manifest_str (manifest self))) ''sha1'' = Some (sha1 (Manifest_str (manifest self)))
   \<and> sections (manifest self) = u_digests self
   \<and> map name (sections (signatures md5 sha1 self)) = map name (sections (manifest self))
   \<and> map (\<lambda>s. map_of (digests s)) (sections (signatures md5 sha1 self))
       = map (\<lambda>s. [''md5'' \<mapsto> md5 (Section_str s), ''sha1'' \<mapsto> sha1 (Section_str s)])
           (sections (manifest self))"
  by (auto simp: signatures_def manifest_def u_sign_def digest_def fun_eq_iff)

section \<open>The order of the manifest entries\<close>

text \<open>
  Claim C7, as amended. \<open>JarExtractor\<close> lists the entries of the archive that are not
  directories in the order of a stable sort by \<open>file_key\<close>, which is the string made of
  the priority class, the lower-cased directory component and the lower-cased base
  name, joined by \<open>-\<close> and compared as one string. The class is 1 for \<open>install.rdf\<close>,
  2 for \<open>chrome.manifest\<close>, \<open>icon.png\<close> and \<open>icon64.png\<close>, 5 for the license-like names
  and 4 for every other name. The entries \<open>foo.txt\<close>, \<open>install.rdf\<close>, \<open>chrome.manifest\<close>,
  \<open>LICENSE\<close> sort to \<open>install.rdf\<close>, \<open>chrome.manifest\<close>, \<open>foo.txt\<close>, \<open>LICENSE\<close>.
\<close>

theorem jar_extractor_order:
  "(fs path = Some (Archive es) \<longrightarrow>
      (\<exists>je. JarExtractor_init md5 sha1 fs alloc path outp omit = Inr je \<and>
         map name (u_digests je) =
           map filename (filter (\<lambda>f. \<not> directory_re_search (filename f))
              (sort_key file_key (open_filelist alloc es)))))
   \<and> file_key z = str_nat (prio (filename z)) @ ''-'' @ fst (os_path_split (lower (filename z)))
        @ ''-'' @ snd (os_path_split (lower (filename z)))
   \<and> prio ''install.rdf'' = 1
   \<and> (nm \<in> {''chrome.manifest'', ''icon.png'', ''icon64.png''} \<longrightarrow> prio nm = 2)
   \<and> (nm \<in> {''MPL'', ''GPL'', ''LGPL'', ''COPYING'', ''LICENSE'', ''license.txt''} \<longrightarrow> prio nm = 5)
   \<and> (nm \<notin> {''install.rdf'', ''chrome.manifest'', ''icon.png'', ''icon64.png'', ''MPL'', ''GPL'',
          ''LGPL'', ''COPYING'', ''LICENSE'', ''license.txt''} \<longrightarrow> prio nm = 4)
   \<and> map filename (sort_key file_key
          [\<lparr>filename = ''foo.txt'', addr = a1\<rparr>, \<lparr>filename = ''install.rdf'', addr = a2\<rparr>,
           \<lparr>filename = ''chrome.manifest'', addr = a3\<rparr>, \<lparr>filename = ''LICENSE'', addr = a4\<rparr>])
      = [''install.rdf'', ''chrome.manifest'', ''foo.txt'', ''LICENSE'']"
proof -
  have A: "fs path = Some (Archive es) \<longrightarrow>
      (\<exists>je. JarExtractor_init md5 sha1 fs alloc path outp omit = Inr je \<and>
         map name (u_digests je) =
           map filename (filter (\<lambda>f. \<not> directory_re_search (filename f))
              (sort_key file_key (open_filelist alloc es))))"
  proof
    assume a: "fs path = Some (Archive es)"
    have n: "name \<circ> entry_section md5 sha1 zin = filename" for zin
      by (rule ext) (simp add: entry_section_def)
    show "\<exists>je. JarExtractor_init md5 sha1 fs alloc path outp omit = Inr je \<and>
         map name (u_digests je) =
           map filename (filter (\<lambda>f. \<not> directory_re_search (filename f))
              (sort_key file_key (open_filelist alloc es)))"
      by (simp add: JarExtractor_init_eq [of fs path es, OF a] n)
  qed
  have B: "file_key z = str_nat (prio (filename z)) @ ''-'' @ fst (os_path_split (lower (filename z)))
        @ ''-'' @ snd (os_path_split (lower (filename z)))"
    by (simp add: file_key_def Let_def)
  have C: "prio ''install.rdf'' = 1" by (simp add: prio_def)
  have D: "nm \<in> {''chrome.manifest'', ''icon.png'', ''icon64.png''} \<longrightarrow> prio nm = 2"
    by (auto simp: prio_def)
  have E: "nm \<in> {''MPL'', ''GPL'', ''LGPL'', ''COPYING'', ''LICENSE'', ''license.txt''} \<longrightarrow> prio nm = 5"
    by (auto simp: prio_def)
  have F: "nm \<notin> {''install.rdf'', ''chrome.manifest'', ''icon.png'', ''icon64.png'', ''MPL'', ''GPL'',
          ''LGPL'', ''COPYING'', ''LICENSE'', ''license.txt''} \<longrightarrow> prio nm = 4"
    by (simp add: prio_def)
  have G: "map filename (sort_key file_key
          [\<lparr>filename = ''foo.txt'', addr = a1\<rparr>, \<lparr>filename = ''install.rdf'', addr = a2\<rparr>,
           \<lparr>filename = ''chrome.manifest'', addr = a3\<rparr>, \<lparr>filename = ''LICENSE'', addr = a4\<rparr>])
      = [''install.rdf'', ''chrome.manifest'', ''foo.txt'', ''LICENSE'']"
    unfolding file_key_names using example_order by simp
  from A B C D E F G show ?thesis by blast
qed


theorem jar_extractor_order_witness:
  "\<exists>je. JarExtractor_init (\<lambda>s. s) (\<lambda>s. s)
          [''in.xpi'' \<mapsto> Archive [(''foo.txt'', ''a''), (''docs/'', []), (''install.rdf'', ''b''),
                                   (''chrome.manifest'', ''c''), (''LICENSE'', ''d'')]]
          (\<lambda>i. i) ''in.xpi'' None False = Inr je
     \<and> map name (u_digests je) = [''install.rdf'', ''chrome.manifest'', ''foo.txt'', ''LICENSE'']"
proof -
  have ev: "map filename (filter (\<lambda>f. \<not> directory_re_search (filename f))
       (sort_key file_key (open_filelist (\<lambda>i. i)
          [(''foo.txt'', ''a''), (''docs/'', []), (''install.rdf'', ''b''),
           (''chrome.manifest'', ''c''), (''LICENSE'', ''d'')])))
     = [''install.rdf'', ''chrome.manifest'', ''foo.txt'', ''LICENSE'']"
    by code_simp
  from jar_extractor_order [of
      "[''in.xpi'' \<mapsto> Archive [(''foo.txt'', ''a''), (''docs/'', []), (''install.rdf'', ''b''),
                                   (''chrome.manifest'', ''c''), (''LICENSE'', ''d'')]]"
      "''in.xpi''"
      "[(''foo.txt'', ''a''), (''docs/'', []), (''install.rdf'', ''b''),
        (''chrome.manifest'', ''c''), (''LICENSE'', ''d'')]"
      "\<lambda>s. s" "\<lambda>s. s" "\<lambda>i. i" None False] ev
  show ?thesis by simp
qed

text \<open>
  Claim C7 as stated fails: the entries \<open>a/z\<close> and \<open>a!/b\<close> have the keys \<open>4-a-z\<close> and
  \<open>4-a!-b\<close>. As strings the second is smaller (\<open>!\<close> is below \<open>-\<close>), so \<open>JarExtractor\<close>
  lists \<open>a!/b\<close> first; as triples the first is smaller (\<open>a\<close> is a prefix of \<open>a!\<close>).
\<close>

theorem priority_key_counterexample:
  "(case JarExtractor_init (\<lambda>s. s) (\<lambda>s. s) [''in.xpi'' \<mapsto> Archive [(''a/z'', ''1''), (''a!/b'', ''2'')]]
         (\<lambda>i. i) ''in.xpi'' None False of
      Inl e \<Rightarrow> [] | Inr je \<Rightarrow> map name (u_digests je)) = [''a!/b'', ''a/z'']
   \<and> sort_key spec_priority_key [''a/z'', ''a!/b''] = [''a/z'', ''a!/b'']"
  by code_simp

section \<open>The invariant of sections\<close>

text \<open>
  Claim C9, as amended. Every section built by the constructor of \<open>JarExtractor\<close>, hence
  every section of its manifest, and every section built for the \<open>Signature\<close>
  satisfies the invariant: its algorithm set and the keys of its digests agree.
\<close>

theorem constructed_sections_invariant:
  "(JarExtractor_init md5 sha1 fs alloc path outp omit = Inr je \<longrightarrow>
      list_all section_invariant (u_digests je)
      \<and> list_all section_invariant (sections (manifest je)))
   \<and> list_all section_invariant (sections (signatures md5 sha1 self))"
proof -
  have A: "JarExtractor_init md5 sha1 fs alloc path outp omit = Inr je \<longrightarrow>
      list_all section_invariant (u_digests je) \<and> list_all section_invariant (sections (manifest je))"
  proof
    assume a: "JarExtractor_init md5 sha1 fs alloc path outp omit = Inr je"
    from JarExtractor_init_Inr [OF a] obtain es where es: "fs path = Some (Archive es)" ..
    from a JarExtractor_init_eq [of fs path es md5 sha1 alloc outp omit, OF es]
    have "u_digests je = map (entry_section md5 sha1 \<lparr>filelist = open_filelist alloc es, stored = es\<rparr>)
             (filter (\<lambda>f. \<not> directory_re_search (filename f))
                (sort_key file_key (open_filelist alloc es)))"
      by auto
    then have "list_all section_invariant (u_digests je)"
      by (simp add: list_all_iff entry_section_invariant)
    then show "list_all section_invariant (u_digests je) \<and> list_all section_invariant (sections (manifest je))"
      by (simp add: manifest_def)
  qed
  have B: "list_all section_invariant (sections (signatures md5 sha1 self))"
    by (simp add: signatures_def list_all_iff u_sign_invariant)
  from A B show ?thesis ..
qed


theorem constructed_sections_invariant_witness:
  "\<exists>je. JarExtractor_init (\<lambda>s. s) (\<lambda>s. s) [''in.xpi'' \<mapsto> Archive [(''foo.txt'', ''a'')]]
          (\<lambda>i. i) ''in.xpi'' None False = Inr je
     \<and> list_all section_invariant (u_digests je)
     \<and> list_all section_invariant (sections (signatures (\<lambda>s. s) (\<lambda>s. s) je))"
proof -
  from JarExtractor_init_eq [of "[''in.xpi'' \<mapsto> Archive [(''foo.txt'', ''a'')]]" "''in.xpi''"
      "[(''foo.txt'', ''a'')]" "\<lambda>s. s" "\<lambda>s. s" "\<lambda>i. i" None False]
  obtain je where je: "JarExtractor_init (\<lambda>s. s) (\<lambda>s. s) [''in.xpi'' \<mapsto> Archive [(''foo.txt'', ''a'')]]
          (\<lambda>i. i) ''in.xpi'' None False = Inr je"
    by simp
  from constructed_sections_invariant [of "\<lambda>s. s" "\<lambda>s. s" "[''in.xpi'' \<mapsto> Archive [(''foo.txt'', ''a'')]]"
      "\<lambda>i. i" "''in.xpi''" None False je je] je
  show ?thesis by blast
qed

text \<open>
  Claim C9 as stated fails for \<open>Manifest.parse\<close>: an entry that announces MD5 and SHA1 and
  gives only an MD5 digest parses to a section whose algorithm set has \<open>sha1\<close> and whose
  digests have no such key.
\<close>

theorem parse_invariant_counterexample:
  "parse ''Name: foo\<newline>Digest-Algorithms: MD5 SHA1\<newline>MD5-Digest: AAAA\<newline>''
     = Inr \<lparr>sections = [\<lparr>name = ''foo'', algos = [''md5'', ''sha1''],
                            digests = [(''md5'', [CHR 0x00, CHR 0x00, CHR 0x00])]\<rparr>],
            digest_manifests = None\<rparr>
   \<and> \<not> section_invariant \<lparr>name = ''foo'', algos = [''md5'', ''sha1''],
                            digests = [(''md5'', [CHR 0x00, CHR 0x00, CHR 0x00])]\<rparr>"
  by code_simp


section \<open>The order of the signed archive\<close>

text \<open>
  Claim C3. The signed archive is to hold the signature block first, then the entries
  of the input archive in their stored order, then the manifest, then the signature
  file. \<open>make_signed\<close> copies the entries in the order of \<open>sorted(zin.infolist())\<close>, with
  no key (the constructor sorts with \<open>key=file_key\<close>): \<open>ZipInfo\<close> defines no comparison,
  so Python 2 orders the objects by their addresses, and the stored order is kept only
  when the objects happen to lie at increasing addresses. Here the archive stores
  \<open>b.txt\<close>, then \<open>a.txt\<close>, the object of the first entry lies at the higher address, and
  \<open>make_signed\<close> writes \<open>a.txt\<close> before \<open>b.txt\<close>.
\<close>

theorem make_signed_reorders_payload:
  "(case JarExtractor_init (\<lambda>s. []) (\<lambda>s. [])
           [''in.xpi'' \<mapsto> Archive [(''b.txt'', ''B''), (''a.txt'', ''A'')]]
           (\<lambda>i. 10 - i) ''in.xpi'' (Some ''out.xpi'') True of
      Inl e \<Rightarrow> None
    | Inr je \<Rightarrow>
        (case make_signed (\<lambda>s. []) (\<lambda>s. []) (\<lambda>i. 10 - i) je ''SIG'' None
                [''in.xpi'' \<mapsto> Archive [(''b.txt'', ''B''), (''a.txt'', ''A'')]] of
           (Inl e, fs') \<Rightarrow> None
         | (Inr u, fs') \<Rightarrow>
             (case fs' ''out.xpi'' of
                Some (Archive out) \<Rightarrow> Some (map fst out)
              | _ \<Rightarrow> None)))
   = Some [''META-INF/zigbert.rsa'', ''a.txt'', ''b.txt'', ''META-INF/manifest.mf'',
           ''META-INF/zigbert.sf'']"
  by code_simp

section \<open>The parsing errors\<close>

text \<open>
  Claim C8, as amended. \<open>Manifest.parse\<close> raises \<open>ParsingError\<close> exactly when the first line
  it cannot process (all lines before it having been processed without error) is
  longer than 72 characters after stripping trailing whitespace, or is a continuation
  line with no active header, or is not blank, not a continuation and not a recognized
  header. For a line too long and for an orphan continuation the message carries the
  1-based number of that line; for an unrecognized line it carries the text of the
  stripped line instead.
\<close>

theorem parse_ParsingError_iff:
  "parse buf = Inl (ParsingError msg) \<longleftrightarrow>
     (\<exists>n st. n < length (readlines buf @ [[NL], [NL]])
        \<and> parse_lines init_pstate (take n (readlines buf @ [[NL], [NL]])) = Inr st
        \<and> (line_too_long ((readlines buf @ [[NL], [NL]]) ! n) \<and> msg = too_long_msg (n + 1)
           \<or> orphan_continuation (header st) ((readlines buf @ [[NL], [NL]]) ! n) \<and> msg = orphan_msg (n + 1)
           \<or> unrecognized_line ((readlines buf @ [[NL], [NL]]) ! n)
               \<and> msg = unrecognized_msg (rstrip ((readlines buf @ [[NL], [NL]]) ! n))))"
proof -
  define ls where "ls = readlines buf @ [[NL], [NL]]"
  have l0: "lineno init_pstate = 0" by (simp add: init_pstate_def)
  have p: "parse buf = Inl (ParsingError msg) \<longleftrightarrow> parse_lines init_pstate ls = Inl (ParsingError msg)"
    unfolding ls_def by (cases "parse_lines init_pstate (readlines buf @ [[NL], [NL]])") (simp_all add: parse_def)
  have "parse_lines init_pstate ls = Inl (ParsingError msg) \<longleftrightarrow>
     (\<exists>n st. n < length ls \<and> parse_lines init_pstate (take n ls) = Inr st
        \<and> (line_too_long (ls ! n) \<and> msg = too_long_msg (n + 1)
           \<or> orphan_continuation (header st) (ls ! n) \<and> msg = orphan_msg (n + 1)
           \<or> unrecognized_line (ls ! n) \<and> msg = unrecognized_msg (rstrip (ls ! n))))"
    (is "?L \<longleftrightarrow> ?R")
  proof
    assume ?L
    then obtain n st where n: "n < length ls" and t: "parse_lines init_pstate (take n ls) = Inr st"
      and ln: "lineno st = lineno init_pstate + n"
      and pl: "parse_line st (ls ! n) = Inl (ParsingError msg)"
      unfolding parse_lines_Inl by blast
    from ln l0 have "lineno st = n" by simp
    with pl have "line_too_long (ls ! n) \<and> msg = too_long_msg (n + 1)
           \<or> orphan_continuation (header st) (ls ! n) \<and> msg = orphan_msg (n + 1)
           \<or> unrecognized_line (ls ! n) \<and> msg = unrecognized_msg (rstrip (ls ! n))"
      unfolding parse_line_ParsingError by simp
    with n t show ?R by blast
  next
    assume ?R
    then obtain n st where n: "n < length ls" and t: "parse_lines init_pstate (take n ls) = Inr st"
      and d: "line_too_long (ls ! n) \<and> msg = too_long_msg (n + 1)
           \<or> orphan_continuation (header st) (ls ! n) \<and> msg = orphan_msg (n + 1)
           \<or> unrecognized_line (ls ! n) \<and> msg = unrecognized_msg (rstrip (ls ! n))"
      by blast
    from parse_lines_lineno [OF t] n l0 have ln: "lineno st = n" by simp
    with d have pl: "parse_line st (ls ! n) = Inl (ParsingError msg)"
      unfolding parse_line_ParsingError by simp
    from ln l0 have "lineno st = lineno init_pstate + n" by simp
    with n t pl show ?L
      unfolding parse_lines_Inl by blast
  qed
  with p show ?thesis unfolding ls_def by simp
qed

theorem parse_ParsingError_iff_witness:
  "parse (''Name: a\<newline>'' @ replicate 73 (CHR ''x'')) = Inl (ParsingError (too_long_msg 2))
   \<and> (\<exists>n st. n < length (readlines (''Name: a\<newline>'' @ replicate 73 (CHR ''x'')) @ [[NL], [NL]])
        \<and> parse_lines init_pstate (take n (readlines (''Name: a\<newline>'' @ replicate 73 (CHR ''x'')) @ [[NL], [NL]])) = Inr st
        \<and> (line_too_long ((readlines (''Name: a\<newline>'' @ replicate 73 (CHR ''x'')) @ [[NL], [NL]]) ! n)
              \<and> too_long_msg 2 = too_long_msg (n + 1)
           \<or> orphan_continuation (header st) ((readlines (''Name: a\<newline>'' @ replicate 73 (CHR ''x'')) @ [[NL], [NL]]) ! n)
              \<and> too_long_msg 2 = orphan_msg (n + 1)
           \<or> unrecognized_line ((readlines (''Name: a\<newline>'' @ replicate 73 (CHR ''x'')) @ [[NL], [NL]]) ! n)
              \<and> too_long_msg 2 = unrecognized_msg (rstrip ((readlines (''Name: a\<newline>'' @ replicate 73 (CHR ''x'')) @ [[NL], [NL]]) ! n))))"
proof -
  have h: "parse (''Name: a\<newline>'' @ replicate 73 (CHR ''x'')) = Inl (ParsingError (too_long_msg 2))"
    by code_simp
  from h [unfolded parse_ParsingError_iff] h show ?thesis by (rule conjI [rotated])
qed

text \<open>
  Claim C8 as stated fails: the error for an unrecognized line, here line 3, quotes the
  line and holds no digit, so it does not carry the line number.
\<close>

theorem parse_unrecognized_no_lineno_counterexample:
  "parse ''Name: a\<newline>\<newline>bogus\<newline>''
     = Inl (ParsingError (''Unrecognized line format: '' @ [CHR 0x22] @ ''bogus'' @ [CHR 0x22]))
   \<and> filter (\<lambda>c. c \<in> set ''0123456789'')
        (''Unrecognized line format: '' @ [CHR 0x22] @ ''bogus'' @ [CHR 0x22]) = []"
  by code_simp

section \<open>Inputs on which the parser fails\<close>

text \<open>
  Claim C5. A manifest entry whose \<open>Name\<close> ends in a path separator is to be discarded
  silently, with its \<open>Digest-Algorithms\<close> and digest lines. The parser skips the \<open>Name\<close>
  line only: the lines that follow still fill \<open>item\<close>, and at the blank line that ends
  the entry \<open>item.pop('name')\<close> raises \<open>KeyError\<close>. (The constructor of \<open>JarExtractor\<close>
  does skip directory entries, see \<open>jar_extractor_order\<close>.)
\<close>

theorem parse_directory_entry_with_digests:
  "parse ''Manifest-Version: 1.0\<newline>\<newline>Name: dir/\<newline>Digest-Algorithms: MD5 SHA1\<newline>MD5-Digest: 1B2M2Y8AsgTpgAmY7PhCfg==\<newline>SHA1-Digest: 2jmj7l5rSw0yVb/vlWAYkK/YBwk=\<newline>''
     = Inl (KeyError ''name'')"
  by code_simp

text \<open>
  Claim C6. A continuation line is to extend the value of the active header. The parser
  runs \<open>item[header] += ...\<close> with the lower-cased header name as key, while the values
  are stored under \<open>name\<close>, \<open>algos\<close> and \<open>digests\<close>: a continuation of any header but
  \<open>Name\<close> raises \<open>KeyError\<close>.
\<close>

theorem parse_continuation_after_algorithms:
  "parse ''Name: foo\<newline>Digest-Algorithms: MD5\<newline> SHA1\<newline>''
     = Inl (KeyError ''digest-algorithms'')"
  by code_simp

text \<open>
  Claim C4. A wrapped \<open>Name\<close> line is to parse back to the name. \<open>Section.__str__\<close> cuts
  the line into pieces of 72 characters and puts a space before each piece but the
  first, so a full continuation line has 73 characters, and the parser rejects every
  line of more than 72: a section whose \<open>Name\<close> line has 144 characters or more does not
  parse.
\<close>

theorem parse_wrapped_long_name:
  "readlines (Section_str \<lparr>name = replicate 138 (CHR ''a''), algos = [''md5'', ''sha1''],
       digests = [(''md5'', replicate 16 (CHR 0x00)), (''sha1'', replicate 20 (CHR 0x00))]\<rparr>) ! 1
     = CHR '' '' # replicate 72 (CHR ''a'') @ [NL]
   \<and> parse (Section_str \<lparr>name = replicate 138 (CHR ''a''), algos = [''md5'', ''sha1''],
       digests = [(''md5'', replicate 16 (CHR 0x00)), (''sha1'', replicate 20 (CHR 0x00))]\<rparr>)
     = Inl (ParsingError ''Manifest parsing error: line too long (2)'')"
  by code_simp

section \<open>The round trip through the serializer and the parser\<close>

text \<open>
  Claim C1, as amended. For every \<open>Manifest\<close> constructed from sections whose names
  contain no newline, neither begin nor end with whitespace, do not end in a path
  separator and have at most 137 characters (so that the \<open>Name\<close> line is wrapped at most
  once), where a name of more than 66 characters has as its 66th character neither
  whitespace nor a path separator, whose digests are a non-empty dict with keys among
  \<open>md5\<close> and \<open>sha1\<close> and values of at most 45 bytes for \<open>md5\<close> and 42 bytes for \<open>sha1\<close>, and
  whose algorithm set is the set of keys of the digests: parsing \<open>str(m)\<close> with
  \<open>Manifest.parse\<close> succeeds and yields a manifest whose sections have the same names,
  the same algorithm sets and the same raw digest bytes as those of \<open>m\<close>, in the same
  order.
\<close>

theorem manifest_roundtrip:
  assumes "list_all roundtrip_section (sections M)"
  shows "\<exists>M'. parse (Manifest_str M) = Inr M'
     \<and> map name (sections M') = map name (sections M)
     \<and> map (\<lambda>s. set (algos s)) (sections M') = map (\<lambda>s. set (algos s)) (sections M)
     \<and> map (\<lambda>s. map_of (digests s)) (sections M') = map (\<lambda>s. map_of (digests s)) (sections M)"
proof -
  from parse_version_lines obtain st0 where st0: "parse_lines init_pstate [Manifest_header @ [NL], [NL]] = Inr st0"
    "p_item st0 = empty_item" "items st0 = []" "kwargs st0 = None"
    by blast
  from body_parse [OF assms st0(2)] obtain st' ss where
    st': "parse_lines st0 (readlines (join [NL] (map Section_str (sections M))) @ [[NL], [NL]]) = Inr st'"
    and it: "items st' = items st0 @ ss"
    and ss: "map name ss = map name (sections M)"
      "map (\<lambda>s. set (algos s)) ss = map (\<lambda>s. set (algos s)) (sections M)"
      "map (\<lambda>s. map_of (digests s)) ss = map (\<lambda>s. map_of (digests s)) (sections M)"
    by blast
  have nl: "NL \<notin> set Manifest_header" by (simp add: Manifest_header_def NL_def)
  have "readlines (Manifest_str M) @ [[NL], [NL]]
      = [Manifest_header @ [NL], [NL]] @ (readlines (join [NL] (map Section_str (sections M))) @ [[NL], [NL]])"
    using readlines_line [OF nl, of "NL # body M"]
    by (simp add: Manifest_str_def body_def readlines_blank)
  then have "parse_lines init_pstate (readlines (Manifest_str M) @ [[NL], [NL]]) = Inr st'"
    using st0(1) st' by (simp only: parse_lines_append sum.case)
  then have "parse (Manifest_str M) = Inr \<lparr>sections = items st', digest_manifests = kwargs st'\<rparr>"
    by (simp add: parse_def)
  with it st0(3) ss show ?thesis by simp
qed

text \<open>The theorem at a manifest of one section whose name has 100 characters, so that its
  \<open>Name\<close> line is wrapped, with both digests.\<close>

theorem manifest_roundtrip_witness:
  "list_all roundtrip_section
     (sections \<lparr>sections =
        [\<lparr>name = ''chrome/'' @ replicate 90 (CHR ''a'') @ ''.js'', algos = [''sha1'', ''md5''],
           digests = [(''sha1'', ''0123456789abcdefghij''), (''md5'', ''0123456789abcdef'')]\<rparr>],
        digest_manifests = None\<rparr>)
   \<and> (\<exists>M'. parse (Manifest_str \<lparr>sections =
        [\<lparr>name = ''chrome/'' @ replicate 90 (CHR ''a'') @ ''.js'', algos = [''sha1'', ''md5''],
           digests = [(''sha1'', ''0123456789abcdefghij''), (''md5'', ''0123456789abcdef'')]\<rparr>],
        digest_manifests = None\<rparr>) = Inr M'
     \<and> map name (sections M') = map name (sections \<lparr>sections =
        [\<lparr>name = ''chrome/'' @ replicate 90 (CHR ''a'') @ ''.js'', algos = [''sha1'', ''md5''],
           digests = [(''sha1'', ''0123456789abcdefghij''), (''md5'', ''0123456789abcdef'')]\<rparr>],
        digest_manifests = None\<rparr>)
     \<and> map (\<lambda>s. set (algos s)) (sections M') = map (\<lambda>s. set (algos s)) (sections \<lparr>sections =
        [\<lparr>name = ''chrome/'' @ replicate 90 (CHR ''a'') @ ''.js'', algos = [''sha1'', ''md5''],
           digests = [(''sha1'', ''0123456789abcdefghij''), (''md5'', ''0123456789abcdef'')]\<rparr>],
        digest_manifests = None\<rparr>)
     \<and> map (\<lambda>s. map_of (digests s)) (sections M') = map (\<lambda>s. map_of (digests s)) (sections \<lparr>sections =
        [\<lparr>name = ''chrome/'' @ replicate 90 (CHR ''a'') @ ''.js'', algos = [''sha1'', ''md5''],
           digests = [(''sha1'', ''0123456789abcdefghij''), (''md5'', ''0123456789abcdef'')]\<rparr>],
        digest_manifests = None\<rparr>))"
proof -
  have h: "list_all roundtrip_section
     (sections \<lparr>sections =
        [\<lparr>name = ''chrome/'' @ replicate 90 (CHR ''a'') @ ''.js'', algos = [''sha1'', ''md5''],
           digests = [(''sha1'', ''0123456789abcdefghij''), (''md5'', ''0123456789abcdef'')]\<rparr>],
        digest_manifests = None\<rparr>)"
    by (auto simp: roundtrip_section_def roundtrip_name_def isspace_def is_sep_def NL_def nth_append)
  from h manifest_roundtrip [OF h] show ?thesis by (rule conjI)
qed

text \<open>
  Claim C1 as stated asks only that the names do not end in a path separator. Then the
  round trip fails in five ways, each by a rule of the parser or of the serializer:
  the parser strips the whitespace around the value of a header, so the name
  \<open>" a.txt"\<close> comes back as \<open>"a.txt"\<close>; a section without digests serializes an empty
  \<open>Digest-Algorithms\<close> line, which parses to the algorithm list \<open>['']\<close>; the serializer
  writes the keys of the digests and not the algorithm set, so a section with the
  algorithms \<open>md5\<close> and \<open>sha1\<close> and only an \<open>md5\<close> digest comes back with the algorithm
  \<open>md5\<close> alone; a digest under another key, here \<open>sha256\<close>, serializes to a line that
  the parser does not recognize; and an \<open>md5\<close> digest of 46 bytes serializes to a line of
  76 characters, which the parser refuses as too long.
\<close>

theorem manifest_roundtrip_counterexample:
  "parse (Manifest_str \<lparr>sections = [\<lparr>name = '' a.txt'', algos = [''sha1'', ''md5''],
        digests = [(''sha1'', replicate 20 (CHR 0x00)), (''md5'', replicate 16 (CHR 0x00))]\<rparr>],
        digest_manifests = None\<rparr>)
     = Inr \<lparr>sections = [\<lparr>name = ''a.txt'', algos = [''md5'', ''sha1''],
        digests = [(''md5'', replicate 16 (CHR 0x00)), (''sha1'', replicate 20 (CHR 0x00))]\<rparr>],
        digest_manifests = None\<rparr>
   \<and> \<not> directory_re_search '' a.txt''
   \<and> parse (Manifest_str \<lparr>sections = [\<lparr>name = ''a.txt'', algos = [], digests = []\<rparr>],
        digest_manifests = None\<rparr>)
     = Inr \<lparr>sections = [\<lparr>name = ''a.txt'', algos = [[]], digests = []\<rparr>], digest_manifests = None\<rparr>
   \<and> parse (Manifest_str \<lparr>sections = [\<lparr>name = ''a.txt'', algos = [''md5'', ''sha1''],
        digests = [(''md5'', replicate 16 (CHR 0x00))]\<rparr>], digest_manifests = None\<rparr>)
     = Inr \<lparr>sections = [\<lparr>name = ''a.txt'', algos = [''md5''],
        digests = [(''md5'', replicate 16 (CHR 0x00))]\<rparr>], digest_manifests = None\<rparr>
   \<and> parse (Manifest_str \<lparr>sections = [\<lparr>name = ''a.txt'', algos = [''sha256''],
        digests = [(''sha256'', replicate 32 (CHR 0x00))]\<rparr>], digest_manifests = None\<rparr>)
     = Inl (ParsingError (unrecognized_msg ''SHA256-Digest: AAAAAAAAAAAAAAAAAAAAAAAAAAAAAAAAAAAAAAAAAAA=''))
   \<and> parse (Manifest_str \<lparr>sections = [\<lparr>name = ''a.txt'', algos = [''md5''],
        digests = [(''md5'', replicate 46 (CHR 0x00))]\<rparr>], digest_manifests = None\<rparr>)
     = Inl (ParsingError (too_long_msg 5))"
  by code_simp

end
